theory Spec2Isabelle
  imports Complex_Main "HOL-Library.AList"
begin

section \<open>Strings\<close>

text \<open>
  \<open>str.lower\<close> and \<open>str.rstrip\<close> on the ASCII range, which is what header names,
  methods and paths of a request are made of.
\<close>

definition lower_char :: "char \<Rightarrow> char" where
  "lower_char c =
     (case map_of (zip ''ABCDEFGHIJKLMNOPQRSTUVWXYZ'' ''abcdefghijklmnopqrstuvwxyz'') c of
        Some d \<Rightarrow> d
      | None \<Rightarrow> c)"

definition lower :: "string \<Rightarrow> string" where
  "lower s = map lower_char s"

definition rstrip :: "char \<Rightarrow> string \<Rightarrow> string" where
  "rstrip c s = rev (dropWhile (\<lambda>x. x = c) (rev s))"

fun join :: "string \<Rightarrow> string list \<Rightarrow> string" where
  "join sep [] = []"
| "join sep [x] = x"
| "join sep (x # y # ys) = x @ sep @ join sep (y # ys)"

section \<open>Values, requests, responses, exceptions\<close>

text \<open>
  Python values that travel through the router: converted path parameters, validated
  bodies and the content of JSON responses. Floats are left out.
\<close>

datatype pyval =
    VNone
  | VBool bool
  | VInt int
  | VStr string
  | VList "pyval list"
  | VDict "(string \<times> pyval) list"

text \<open>
  \<open>Request\<close> (requests.py): the scope's method, path and headers, the body bytes that
  \<open>receive\<close> delivers, and the \<open>path_params\<close> attribute that the router sets on a
  match (absent before).
\<close>

record request =
  req_method :: string
  path :: string
  req_headers :: "(string \<times> string) list"
  body :: string
  path_params :: "(string \<times> pyval) list option"

text \<open>
  \<open>Response\<close> (responses.py): \<open>content\<close>, \<open>status_code\<close> and the private dict
  \<open>_headers\<close>, kept as an association list in insertion order.
\<close>

record response =
  content :: pyval
  status_code :: int
  headers :: "(string \<times> string) list"

text \<open>
  \<open>Response.__init__\<close>: the content type first (\<open>text/plain\<close> when no media type is
  given, and an empty media type is falsy), then the custom headers under lower-cased
  keys.
\<close>

definition Response :: "pyval \<Rightarrow> int \<Rightarrow> (string \<times> string) list \<Rightarrow> string option \<Rightarrow> response" where
  "Response c st hs media_type =
     \<lparr>content = c, status_code = st,
      headers = fold (\<lambda>(k, v). AList.update (lower k) v) hs
        [(''content-type'',
          (case media_type of None \<Rightarrow> ''text/plain''
           | Some m \<Rightarrow> if m = [] then ''text/plain'' else m))]\<rparr>"

definition JSONResponse :: "pyval \<Rightarrow> int \<Rightarrow> (string \<times> string) list \<Rightarrow> response" where
  "JSONResponse c st hs = Response c st hs (Some ''application/json'')"

definition add_header :: "string \<Rightarrow> string \<Rightarrow> response \<Rightarrow> response" where
  "add_header k v r = r\<lparr>headers := AList.update (lower k) v (headers r)\<rparr>"

text \<open>
  Exceptions (exceptions.py) by what the code reads of them. \<open>ValidationError d\<close> was
  built with the one argument \<open>d\<close>, so \<open>str(e)\<close> is \<open>d\<close>. \<open>HTTPException st d hs m\<close>
  is any other instance of \<open>HTTPException\<close>, with its \<open>status_code\<close>, \<open>detail\<close> and
  \<open>headers\<close> attributes and with \<open>str(e)\<close>, which Python prints from the constructor's
  arguments. \<open>PluginError\<close> and \<open>Exception\<close> are not HTTP exceptions and carry
  \<open>str(e)\<close>.
\<close>

datatype exc =
    ValidationError string
  | HTTPException int string "(string \<times> string) list" string
  | PluginError string
  | Exception string

text \<open>\<open>HTTPException.__init__\<close>: \<open>detail or "An error occurred"\<close>.\<close>

definition detail_or_default :: "string option \<Rightarrow> string" where
  "detail_or_default d =
     (case d of None \<Rightarrow> ''An error occurred''
      | Some x \<Rightarrow> if x = [] then ''An error occurred'' else x)"

text \<open>\<open>InternalServerError(detail)\<close>, called with a string or with \<open>None\<close>.\<close>

definition InternalServerError :: "string option \<Rightarrow> exc" where
  "InternalServerError d =
     HTTPException 500 (detail_or_default d) [] (case d of None \<Rightarrow> ''None'' | Some x \<Rightarrow> x)"

text \<open>
  \<open>isinstance(e, HTTPException)\<close>, and the attributes of an HTTP exception (the code
  reads them of HTTP exceptions only).
\<close>

fun is_http_exception :: "exc \<Rightarrow> bool" where
  "is_http_exception (ValidationError d) = True"
| "is_http_exception (HTTPException st d hs m) = True"
| "is_http_exception (PluginError m) = False"
| "is_http_exception (Exception m) = False"

fun exc_status_code :: "exc \<Rightarrow> int" where
  "exc_status_code (ValidationError d) = 422"
| "exc_status_code (HTTPException st d hs m) = st"
| "exc_status_code (PluginError m) = 500"
| "exc_status_code (Exception m) = 500"

fun exc_detail :: "exc \<Rightarrow> string" where
  "exc_detail (ValidationError d) = detail_or_default (Some d)"
| "exc_detail (HTTPException st d hs m) = d"
| "exc_detail (PluginError m) = m"
| "exc_detail (Exception m) = m"

fun exc_headers :: "exc \<Rightarrow> (string \<times> string) list" where
  "exc_headers (HTTPException st d hs m) = hs"
| "exc_headers e = []"

fun exc_str :: "exc \<Rightarrow> string" where
  "exc_str (ValidationError d) = d"
| "exc_str (HTTPException st d hs m) = m"
| "exc_str (PluginError m) = m"
| "exc_str (Exception m) = m"

text \<open>
  An awaited call of user code (a handler, a dependency, a hook) runs on a state of the
  world \<open>'s\<close>, changes it, and returns a value or raises.
\<close>

type_synonym ('a, 's) io = "'s \<Rightarrow> (exc + 'a) \<times> 's"

section \<open>Routes\<close>

text \<open>\<open>RateLimit\<close> (routing.py): the dataclass of a route's rate-limit configuration.\<close>

record RateLimit =
  requests :: int
  window :: int
  limit_by :: string

text \<open>
  What \<open>Router.handle_request\<close> reads of a handler's signature: the parameter names in
  order, each with its annotation. \<open>Model validate\<close> is a subclass of \<open>BaseModel\<close>, with
  \<open>validate\<close> standing for \<open>model_validate(json.loads(body))\<close> of the validation
  library (the message of the exception raised, or the validated value); \<open>NotModel\<close>
  is any other class (a missing annotation too); \<open>NotClass\<close> is an annotation on which
  \<open>issubclass\<close> raises \<open>TypeError\<close>.
\<close>

datatype annotation =
    Model "string \<Rightarrow> string + pyval"
  | NotModel
  | NotClass

text \<open>The keyword arguments a handler is called with.\<close>

datatype arg =
    Value pyval
  | RequestObj request
  | Context request

text \<open>
  \<open>Depends\<close> (routing.py): an instance (\<open>dep_id\<close> stands for the object's identity)
  wrapping a callable, with the parameters of the callable's signature, each with its
  default when that default is a \<open>Depends\<close> instance.
\<close>

datatype 's Depends =
  Depends
    (dep_id: nat)
    (dep_params: "(string \<times> 's Depends option) list")
    (dependency: "(string \<times> arg) list \<Rightarrow> (pyval, 's) io")

text \<open>
  \<open>Route\<close> (routing.py). \<open>compiled_regex\<close> is the matcher that \<open>_compile\<close> built with
  the \<open>re\<close> library: applied to a path it gives the \<open>groupdict\<close> of the match (names
  and captured strings, in pattern order) or \<open>None\<close>. \<open>param_converters\<close> maps a
  parameter name to its converter, \<open>None\<close> where the converter raises \<open>ValueError\<close> or
  \<open>TypeError\<close>.
\<close>

record 's Route =
  route_path :: string
  handler :: "(string \<times> arg) list \<Rightarrow> (response, 's) io"
  handler_sig :: "(string \<times> annotation) list"
  methods :: "string list"
  dependencies :: "'s Depends list"
  rate_limit :: "RateLimit option"
  compiled_regex :: "string \<Rightarrow> (string \<times> string) list option"
  param_converters :: "string \<rightharpoonup> (string \<Rightarrow> pyval option)"

text \<open>
  The loop of \<open>Route.match\<close> over the captured groups: a group with a converter is
  converted, and a failed conversion ends the match with \<open>None\<close>; a group without one
  is kept as the string.
\<close>

fun convert_groups ::
  "(string \<rightharpoonup> (string \<Rightarrow> pyval option)) \<Rightarrow> (string \<times> string) list \<Rightarrow>
   (string \<times> pyval) list \<Rightarrow> (string \<times> pyval) list option" where
  "convert_groups convs [] params = Some params"
| "convert_groups convs ((name, val) # rest) params =
     (case convs name of
        Some converter \<Rightarrow>
          (case converter val of
             None \<Rightarrow> None
           | Some v \<Rightarrow> convert_groups convs rest (AList.update name v params))
      | None \<Rightarrow> convert_groups convs rest (AList.update name (VStr val) params))"

definition match :: "'s Route \<Rightarrow> string \<Rightarrow> (string \<times> pyval) list option" where
  "match r p =
     (case compiled_regex r p of
        None \<Rightarrow> None
      | Some groupdict \<Rightarrow> convert_groups (param_converters r) groupdict [])"

section \<open>Router\<close>

text \<open>
  \<open>Router\<close> (routing.py): the route list and the index from a method to its routes, a
  \<open>defaultdict(list)\<close>, so every method has a list, empty until a route is added.
\<close>

record 's Router =
  routes :: "'s Route list"
  method_routes :: "string \<Rightarrow> 's Route list"

definition Router_init :: "'s Router" where
  "Router_init = \<lparr>routes = [], method_routes = (\<lambda>m. [])\<rparr>"

definition add_route :: "'s Router \<Rightarrow> 's Route \<Rightarrow> 's Router" where
  "add_route rt r =
     rt\<lparr>routes := routes rt @ [r],
        method_routes := fold (\<lambda>m mr. mr(m := mr m @ [r])) (methods r) (method_routes rt)\<rparr>"

text \<open>A router as registration builds it: \<open>Router()\<close>, then \<open>add_route\<close> for each route in turn.\<close>

definition register :: "'s Route list \<Rightarrow> 's Router" where
  "register rs = foldl add_route Router_init rs"

definition normalize_path :: "string \<Rightarrow> string" where
  "normalize_path p = (let q = rstrip (CHR ''/'') p in if q = [] then ''/'' else q)"

text \<open>The first loop of \<open>handle_request\<close>: the first route whose match is not \<open>None\<close>.\<close>

fun find_route :: "'s Route list \<Rightarrow> string \<Rightarrow> ('s Route \<times> (string \<times> pyval) list) option" where
  "find_route [] p = None"
| "find_route (r # rs) p =
     (case match r p of
        Some params \<Rightarrow> Some (r, params)
      | None \<Rightarrow> find_route rs p)"

text \<open>
  The second loop: \<open>if route.match(path)\<close> tests the truth value of the result, so a
  route counts when its match is a non-empty dict. The Python set \<open>allowed_methods\<close> is
  a list without repetitions; the order in which Python iterates over a set is not
  fixed, and the list stands for one such order.
\<close>

definition truthy :: "(string \<times> pyval) list option \<Rightarrow> bool" where
  "truthy m = (case m of None \<Rightarrow> False | Some params \<Rightarrow> params \<noteq> [])"

fun collect_allowed :: "'s Route list \<Rightarrow> string \<Rightarrow> string list \<Rightarrow> string list" where
  "collect_allowed [] p allowed = allowed"
| "collect_allowed (r # rs) p allowed =
     (if truthy (match r p)
      then collect_allowed rs p (fold List.insert (methods r) allowed)
      else collect_allowed rs p allowed)"

definition extract_body_params :: "request \<Rightarrow> (string \<Rightarrow> string + pyval) \<Rightarrow> exc + pyval" where
  "extract_body_params req validate =
     (case validate (body req) of
        Inl msg \<Rightarrow> Inl (ValidationError msg)
      | Inr v \<Rightarrow> Inr v)"

text \<open>The loop over the handler's parameters that fills in the body models.\<close>

fun body_params ::
  "request \<Rightarrow> (string \<times> annotation) list \<Rightarrow> (string \<times> arg) list \<Rightarrow> exc + (string \<times> arg) list" where
  "body_params req [] hp = Inr hp"
| "body_params req ((name, ann) # rest) hp =
     (if map_of hp name \<noteq> None then body_params req rest hp
      else case ann of
        NotClass \<Rightarrow> Inl (Exception ''issubclass() arg 1 must be a class'')
      | NotModel \<Rightarrow> body_params req rest hp
      | Model validate \<Rightarrow>
          (case extract_body_params req validate of
             Inl e \<Rightarrow> Inl e
           | Inr v \<Rightarrow> body_params req rest (AList.update name (Value v) hp)))"

text \<open>
  The two \<open>except\<close> clauses of \<open>handle_request\<close>: a \<open>ValidationError\<close> becomes the 422
  response, any other exception is raised again.
\<close>

fun on_exception :: "exc \<Rightarrow> exc + response" where
  "on_exception (ValidationError d) = Inr (JSONResponse (VDict [(''error'', VStr d)]) 422 [])"
| "on_exception e = Inl e"

text \<open>
  The keyword arguments of the handler before the body models: the path parameters,
  then the context or the request if the signature names one.
\<close>

definition handler_params :: "'s Route \<Rightarrow> (string \<times> pyval) list \<Rightarrow> request \<Rightarrow> (string \<times> arg) list" where
  "handler_params r params req =
     (let names = map fst (handler_sig r);
          hp = fold (\<lambda>(k, v). AList.update k (Value v)) params []
      in if ''ctx'' \<in> set names then AList.update ''ctx'' (Context req) hp
         else if ''request'' \<in> set names then AList.update ''request'' (RequestObj req) hp
         else hp)"

text \<open>
  Processing the matched route. The result is what \<open>handle_request\<close> returns or raises,
  with the request as the router leaves it (\<open>path_params\<close> set).
\<close>

definition process_route ::
  "'s Route \<Rightarrow> (string \<times> pyval) list \<Rightarrow> request \<Rightarrow> 's \<Rightarrow> (exc + response) \<times> request \<times> 's" where
  "process_route r params req0 s =
     (let req = req0\<lparr>path_params := Some params\<rparr>
      in case body_params req (handler_sig r) (handler_params r params req) of
           Inl e \<Rightarrow> (on_exception e, req, s)
         | Inr hp \<Rightarrow>
             (case handler r hp s of
                (Inl e, s') \<Rightarrow> (on_exception e, req, s')
              | (Inr resp, s') \<Rightarrow> (Inr resp, req, s')))"

definition select_route :: "'s Router \<Rightarrow> request \<Rightarrow> ('s Route \<times> (string \<times> pyval) list) option" where
  "select_route rt req = find_route (method_routes rt (req_method req)) (normalize_path (path req))"

definition handle_request ::
  "'s Router \<Rightarrow> request \<Rightarrow> 's \<Rightarrow> (exc + response) \<times> request \<times> 's" where
  "handle_request rt req s =
     (case select_route rt req of
        Some (matched_route, params) \<Rightarrow> process_route matched_route params req s
      | None \<Rightarrow>
          (let allowed = collect_allowed (routes rt) (normalize_path (path req)) []
           in if allowed \<noteq> []
              then (Inr (JSONResponse
                      (VDict [(''error'', VStr ''Method Not Allowed''),
                              (''allowed_methods'', VList (map VStr allowed))])
                      405 [(''Allow'', join '', '' allowed)]), req, s)
              else (Inr (JSONResponse (VDict [(''error'', VStr ''Not Found'')]) 404 []), req, s)))"

section \<open>Rate limiter\<close>

text \<open>
  \<open>RateLimiter\<close> (routing.py): its one attribute \<open>requests\<close>, a \<open>defaultdict(list)\<close>
  from a key to its timestamps. \<open>is_allowed\<close> reads the clock once; the reading \<open>now\<close>
  is an argument here. Timestamps are real numbers (the rounding of floats is not
  modelled). The result is the returned flag and the limiter after the call.
\<close>

type_synonym RateLimiter = "string \<Rightarrow> real list"

definition RateLimiter_init :: RateLimiter where
  "RateLimiter_init = (\<lambda>key. [])"

definition is_allowed :: "RateLimiter \<Rightarrow> string \<Rightarrow> RateLimit \<Rightarrow> real \<Rightarrow> bool \<times> RateLimiter" where
  "is_allowed rl key limit now =
     (let kept = filter (\<lambda>ts. now - ts < real_of_int (window limit)) (rl key)
      in if requests limit \<le> int (length kept) then (False, rl(key := kept))
         else (True, rl(key := kept @ [now])))"

text \<open>Successive calls for one key, at the given clock readings.\<close>

fun is_allowed_calls :: "RateLimiter \<Rightarrow> string \<Rightarrow> RateLimit \<Rightarrow> real list \<Rightarrow> bool list \<times> RateLimiter" where
  "is_allowed_calls rl key limit [] = ([], rl)"
| "is_allowed_calls rl key limit (now # later) =
     (case is_allowed rl key limit now of
        (ok, rl') \<Rightarrow>
          (case is_allowed_calls rl' key limit later of
             (oks, rl'') \<Rightarrow> (ok # oks, rl'')))"

section \<open>Dependencies\<close>

text \<open>
  \<open>Depends.__call__\<close>. The \<open>_cache\<close> dicts of the instances are one map from an
  instance to its cached result (each instance only ever uses the key
  \<open>self.dependency\<close>). A cached result is returned at once; otherwise the keyword
  arguments are collected (the request for a parameter named \<open>request\<close>, the awaited
  result for a parameter whose default is a \<open>Depends\<close>), the callable runs, and its
  result is cached.
\<close>

function depends_call ::
    "'s Depends \<Rightarrow> request \<Rightarrow> (nat \<rightharpoonup> pyval) \<Rightarrow> 's \<Rightarrow> (exc + pyval) \<times> (nat \<rightharpoonup> pyval) \<times> 's"
  and depends_kwargs ::
    "(string \<times> 's Depends option) list \<Rightarrow> request \<Rightarrow> (string \<times> arg) list \<Rightarrow> (nat \<rightharpoonup> pyval) \<Rightarrow> 's \<Rightarrow>
     (exc + (string \<times> arg) list) \<times> (nat \<rightharpoonup> pyval) \<times> 's" where
  "depends_call (Depends i ps f) req cache s =
     (case cache i of
        Some v \<Rightarrow> (Inr v, cache, s)
      | None \<Rightarrow>
          (case depends_kwargs ps req [] cache s of
             (Inl e, cache', s') \<Rightarrow> (Inl e, cache', s')
           | (Inr kwargs, cache', s') \<Rightarrow>
               (case f kwargs s' of
                  (Inl e, s'') \<Rightarrow> (Inl e, cache', s'')
                | (Inr v, s'') \<Rightarrow> (Inr v, cache'(i \<mapsto> v), s''))))"
| "depends_kwargs [] req kwargs cache s = (Inr kwargs, cache, s)"
| "depends_kwargs ((name, dflt) # rest) req kwargs cache s =
     (if name = ''request''
      then depends_kwargs rest req (AList.update name (RequestObj req) kwargs) cache s
      else case dflt of
        None \<Rightarrow> depends_kwargs rest req kwargs cache s
      | Some d \<Rightarrow>
          (case depends_call d req cache s of
             (Inl e, cache', s') \<Rightarrow> (Inl e, cache', s')
           | (Inr v, cache', s') \<Rightarrow>
               depends_kwargs rest req (AList.update name (Value v) kwargs) cache' s'))"
  by pat_completeness auto
termination
  by (relation "measure (\<lambda>x. case x of
        Inl (d, req, cache, s) \<Rightarrow> size d
      | Inr (ps, req, kwargs, cache, s) \<Rightarrow> size_list (size_prod (\<lambda>n. 0) (size_option size)) ps)")
     auto

section \<open>Middleware and plugins\<close>

text \<open>
  A middleware (middleware.py) is called with the request and the continuation
  \<open>call_next\<close>.
\<close>

type_synonym 's middleware = "request \<Rightarrow> (request \<Rightarrow> (response, 's) io) \<Rightarrow> (response, 's) io"

definition BaseMiddleware :: "'s middleware" where
  "BaseMiddleware req call_next = call_next req"

text \<open>
  \<open>Plugin\<close> (plugins.py): the four hooks. \<open>post_request\<close> is handed the response
  object; the response component of its result is that object as the hook leaves it.
\<close>

record 's Plugin =
  pre_request :: "request \<Rightarrow> (unit, 's) io"
  post_request :: "request \<Rightarrow> response \<Rightarrow> 's \<Rightarrow> (exc + unit) \<times> response \<times> 's"
  on_startup :: "(unit, 's) io"
  on_shutdown :: "(unit, 's) io"



fun plugins_startup :: "'s Plugin list \<Rightarrow> 's \<Rightarrow> 's" where
  "plugins_startup [] s = s"
| "plugins_startup (p # ps) s =
     (case on_startup p s of
        (Inl e, s') \<Rightarrow> plugins_startup ps s'
      | (Inr u, s') \<Rightarrow> plugins_startup ps s')"

fun plugins_shutdown :: "'s Plugin list \<Rightarrow> 's \<Rightarrow> 's" where
  "plugins_shutdown [] s = s"
| "plugins_shutdown (p # ps) s =
     (case on_shutdown p s of
        (Inl e, s') \<Rightarrow> plugins_shutdown ps s'
      | (Inr u, s') \<Rightarrow> plugins_shutdown ps s')"

section \<open>Application\<close>

text \<open>
  \<open>Application\<close> (application.py). \<open>plugin_manager\<close> is the list of the manager's
  plugins, \<open>None\<close> when the application was built without plugins; \<open>lifespan_manager\<close>
  is the pair of \<open>__aenter__\<close> and \<open>__aexit__\<close> of the manager, when one is set.
\<close>

record 's Application =
  middleware :: "'s middleware list"
  router :: "'s Router option"
  debug :: bool
  lifespan_manager :: "((unit, 's) io \<times> (unit, 's) io) option"
  startup_complete :: bool
  shutdown_complete :: bool
  startup_handlers :: "(unit, 's) io list"
  shutdown_handlers :: "(unit, 's) io list"
  plugin_manager :: "'s Plugin list option"
  plugins_enabled :: bool

definition Application_init :: "bool \<Rightarrow> bool \<Rightarrow> 's Application" where
  "Application_init dbg enable_plugins =
     \<lparr>middleware = [], router = None, debug = dbg, lifespan_manager = None,
      startup_complete = False, shutdown_complete = False,
      startup_handlers = [], shutdown_handlers = [],
      plugin_manager = (if enable_plugins then Some [] else None),
      plugins_enabled = enable_plugins\<rparr>"

definition add_middleware :: "'s middleware \<Rightarrow> 's Application \<Rightarrow> 's Application" where
  "add_middleware m app = app\<lparr>middleware := middleware app @ [m]\<rparr>"

text \<open>The attribute error of a call on \<open>None\<close>.\<close>

definition none_attribute :: "string \<Rightarrow> exc" where
  "none_attribute a = Exception (''NoneType object has no attribute '' @ a)"

text \<open>
  The loop of \<open>startup\<close> over the startup handlers: the first handler that raises
  ends the loop and its exception is raised again.
\<close>

fun run_startup_handlers :: "(unit, 's) io list \<Rightarrow> (unit, 's) io" where
  "run_startup_handlers [] s = (Inr (), s)"
| "run_startup_handlers (h # hs) s =
     (case h s of
        (Inl e, s') \<Rightarrow> (Inl e, s')
      | (Inr u, s') \<Rightarrow> run_startup_handlers hs s')"

text \<open>The loop of \<open>shutdown\<close>: an exception of a handler is logged and the loop goes on.\<close>

fun run_shutdown_handlers :: "(unit, 's) io list \<Rightarrow> 's \<Rightarrow> 's" where
  "run_shutdown_handlers [] s = s"
| "run_shutdown_handlers (h # hs) s =
     (case h s of
        (Inl e, s') \<Rightarrow> run_shutdown_handlers hs s'
      | (Inr u, s') \<Rightarrow> run_shutdown_handlers hs s')"

definition startup :: "'s Application \<Rightarrow> 's \<Rightarrow> (exc + unit) \<times> 's Application \<times> 's" where
  "startup app s =
     (if startup_complete app then (Inr (), app, s)
      else case run_startup_handlers (startup_handlers app) s of
        (Inl e, s1) \<Rightarrow> (Inl e, app, s1)
      | (Inr u, s1) \<Rightarrow>
          (case (if plugins_enabled app
                 then (case plugin_manager app of
                         None \<Rightarrow> (Inl (none_attribute ''startup''), s1)
                       | Some ps \<Rightarrow> (Inr (), plugins_startup ps s1))
                 else (Inr (), s1)) of
             (Inl e, s2) \<Rightarrow> (Inl e, app, s2)
           | (Inr u, s2) \<Rightarrow>
               (case lifespan_manager app of
                  None \<Rightarrow> (Inr (), app\<lparr>startup_complete := True\<rparr>, s2)
                | Some (aenter, aexit) \<Rightarrow>
                    (case aenter s2 of
                       (Inl e, s3) \<Rightarrow> (Inl e, app, s3)
                     | (Inr u, s3) \<Rightarrow> (Inr (), app\<lparr>startup_complete := True\<rparr>, s3)))))"

definition shutdown :: "'s Application \<Rightarrow> 's \<Rightarrow> (exc + unit) \<times> 's Application \<times> 's" where
  "shutdown app s =
     (if shutdown_complete app then (Inr (), app, s)
      else let s1 = run_shutdown_handlers (shutdown_handlers app) s
      in case (if plugins_enabled app
               then (case plugin_manager app of
                       None \<Rightarrow> (Inl (none_attribute ''shutdown''), s1)
                     | Some ps \<Rightarrow> (Inr (), plugins_shutdown ps s1))
               else (Inr (), s1)) of
           (Inl e, s2) \<Rightarrow> (Inl e, app, s2)
         | (Inr u, s2) \<Rightarrow>
             (case lifespan_manager app of
                None \<Rightarrow> (Inr (), app\<lparr>shutdown_complete := True\<rparr>, s2)
              | Some (aenter, aexit) \<Rightarrow>
                  (case aexit s2 of
                     (r, s3) \<Rightarrow> (Inr (), app\<lparr>shutdown_complete := True\<rparr>, s3))))"

text \<open>
  The loop of \<open>Application.handle_request\<close> over \<open>reversed(self.middleware)\<close>, here
  over the list already reversed: each middleware is called with a \<open>call_next\<close> that
  returns the response computed so far.
\<close>

fun apply_middleware :: "'s middleware list \<Rightarrow> request \<Rightarrow> response \<Rightarrow> (response, 's) io" where
  "apply_middleware [] req resp s = (Inr resp, s)"
| "apply_middleware (m # ms) req resp s =
     (case m req (\<lambda>r s0. (Inr resp, s0)) s of
        (Inl e, s') \<Rightarrow> (Inl e, s')
      | (Inr resp', s') \<Rightarrow> apply_middleware ms req resp' s')"

text \<open>
  The outer \<open>except\<close> of \<open>Application.handle_request\<close>: an \<open>HTTPException\<close> becomes its
  JSON response, anything else is wrapped in \<open>InternalServerError\<close>.
\<close>

definition translate_exception :: "bool \<Rightarrow> exc \<Rightarrow> exc + response" where
  "translate_exception dbg e =
     (if is_http_exception e
      then Inr (JSONResponse
             (VDict [(''error'', VStr (exc_detail e)), (''status_code'', VInt (exc_status_code e))])
             (exc_status_code e) (exc_headers e))
      else Inl (InternalServerError (if dbg then Some (exc_str e) else None)))"

definition Application_handle_request ::
  "'s Application \<Rightarrow> request \<Rightarrow> 's \<Rightarrow> (exc + response) \<times> request \<times> 's" where
  "Application_handle_request app req s =
     (case router app of
        None \<Rightarrow> (translate_exception (debug app) (none_attribute ''handle_request''), req, s)
      | Some rt \<Rightarrow>
          (case handle_request rt req s of
             (Inl e, req', s') \<Rightarrow> (translate_exception (debug app) e, req', s')
           | (Inr resp, req', s') \<Rightarrow>
               (case apply_middleware (rev (middleware app)) req' resp s' of
                  (Inl e, s'') \<Rightarrow> (translate_exception (debug app) e, req', s'')
                | (Inr resp', s'') \<Rightarrow> (Inr resp', req', s''))))"

text \<open>
  \<open>Response.__call__\<close>: the two messages handed to \<open>send\<close>. The body message carries
  the content, whose encoding to bytes is not modelled.
\<close>

datatype message =
    ResponseStart int "(string \<times> string) list"
  | ResponseBody pyval

definition prepare_headers :: "(string \<times> string) list \<Rightarrow> (string \<times> string) list" where
  "prepare_headers hs = map (\<lambda>(k, v). (lower k, v)) hs"

definition send_response :: "response \<Rightarrow> message list" where
  "send_response r = [ResponseStart (status_code r) (prepare_headers (headers r)), ResponseBody (content r)]"



section \<open>Responses as objects\<close>

text \<open>
  Where aliasing matters, objects live in a store: the object at address \<open>a\<close> is
  \<open>h ! a\<close>, and a new object is put at the end. A \<open>Response\<close> object holds its content,
  its status code and the address of its \<open>_headers\<close> dict. A \<open>CaseInsensitiveDict\<close>
  object is a dict subclass: it holds the entries of the dict it is (those that the
  inherited \<open>dict\<close> methods read and write) and the address of its \<open>_store\<close> dict.
  An operation on an address that does not hold the right kind of object is \<open>None\<close>.
\<close>

datatype pyobj =
    PyDict "(string \<times> string) list"
  | PyResponse pyval int nat
  | PyCaseInsensitiveDict "(string \<times> string) list" nat

type_synonym heap = "pyobj list"

definition dict_at :: "heap \<Rightarrow> nat \<Rightarrow> (string \<times> string) list option" where
  "dict_at h a =
     (if a < length h then (case h ! a of PyDict d \<Rightarrow> Some d | _ \<Rightarrow> None) else None)"

definition dict_setitem :: "nat \<Rightarrow> string \<Rightarrow> string \<Rightarrow> heap \<Rightarrow> heap option" where
  "dict_setitem a k v h =
     (case dict_at h a of
        None \<Rightarrow> None
      | Some d \<Rightarrow> Some (h[a := PyDict (AList.update k v d)]))"

text \<open>\<open>Response.__init__\<close>: a new headers dict and the new response object.\<close>

definition Response_new ::
  "pyval \<Rightarrow> int \<Rightarrow> (string \<times> string) list \<Rightarrow> string option \<Rightarrow> heap \<Rightarrow> nat \<times> heap" where
  "Response_new c st hs media_type h =
     (Suc (length h), h @ [PyDict (headers (Response c st hs media_type)), PyResponse c st (length h)])"

text \<open>The response at an address, read off the store.\<close>

definition response_at :: "heap \<Rightarrow> nat \<Rightarrow> response option" where
  "response_at h r =
     (if r < length h
      then (case h ! r of
              PyResponse c st d \<Rightarrow>
                map_option (\<lambda>hs. \<lparr>content = c, status_code = st, headers = hs\<rparr>) (dict_at h d)
            | _ \<Rightarrow> None)
      else None)"

definition Response_add_header :: "nat \<Rightarrow> string \<Rightarrow> string \<Rightarrow> heap \<Rightarrow> heap option" where
  "Response_add_header r k v h =
     (if r < length h
      then (case h ! r of
              PyResponse c st d \<Rightarrow> dict_setitem d (lower k) v h
            | _ \<Rightarrow> None)
      else None)"

text \<open>
  The \<open>headers\<close> property: \<open>CaseInsensitiveDict(self._headers)\<close>, whose \<open>__init__\<close>
  makes a new \<open>_store\<close> dict and fills it from the items of the data under lower-cased
  keys. The result is the address of the new object.
\<close>

definition Response_headers :: "nat \<Rightarrow> heap \<Rightarrow> (nat \<times> heap) option" where
  "Response_headers r h =
     (if r < length h
      then (case h ! r of
              PyResponse c st d \<Rightarrow>
                (case dict_at h d of
                   None \<Rightarrow> None
                 | Some data \<Rightarrow>
                     Some (Suc (length h),
                           h @ [PyDict (fold (\<lambda>(k, v). AList.update (lower k) v) data []),
                                PyCaseInsensitiveDict [] (length h)]))
            | _ \<Rightarrow> None)
      else None)"

definition Response_call :: "nat \<Rightarrow> heap \<Rightarrow> message list option" where
  "Response_call r h = map_option send_response (response_at h r)"

text \<open>
  Mutations through a \<open>CaseInsensitiveDict\<close>: item assignment is the overridden
  \<open>__setitem__\<close>, which writes \<open>_store\<close> under the lower-cased key; \<open>update\<close> is
  inherited from \<open>dict\<close> and writes the entries of the object itself.
\<close>

datatype mutation =
    SetItem string string
  | Update "(string \<times> string) list"

definition mutate1 :: "nat \<Rightarrow> mutation \<Rightarrow> heap \<Rightarrow> heap option" where
  "mutate1 m op h =
     (if m < length h
      then (case h ! m of
              PyCaseInsensitiveDict own st \<Rightarrow>
                (case op of
                   SetItem k v \<Rightarrow> dict_setitem st (lower k) v h
                 | Update kvs \<Rightarrow>
                     Some (h[m := PyCaseInsensitiveDict (fold (\<lambda>(k, v). AList.update k v) kvs own) st]))
            | _ \<Rightarrow> None)
      else None)"

fun mutate :: "nat \<Rightarrow> mutation list \<Rightarrow> heap \<Rightarrow> heap option" where
  "mutate m [] h = Some h"
| "mutate m (op # ops) h =
     (case mutate1 m op h of
        None \<Rightarrow> None
      | Some h' \<Rightarrow> mutate m ops h')"

definition CaseInsensitiveDict_get :: "nat \<Rightarrow> string \<Rightarrow> heap \<Rightarrow> string option" where
  "CaseInsensitiveDict_get m k h =
     (if m < length h
      then (case h ! m of
              PyCaseInsensitiveDict own st \<Rightarrow>
                (case dict_at h st of None \<Rightarrow> None | Some d \<Rightarrow> map_of d (lower k))
            | _ \<Rightarrow> None)
      else None)"

text \<open>The copy made by the headers property: two fresh objects above the old heap.\<close>

definition copy_above :: "heap \<Rightarrow> heap \<Rightarrow> bool" where
  "copy_above h h' =
     (length h' = Suc (Suc (length h)) \<and> take (length h) h' = h
      \<and> (\<exists>d. h' ! length h = PyDict d)
      \<and> (\<exists>own. h' ! Suc (length h) = PyCaseInsensitiveDict own (length h)))"

section \<open>Concrete routes\<close>

text \<open>
  Matchers for the patterns that \<open>Route._compile\<close> produces from a path of literal
  text and parameters: \<open>Lit\<close> is literal text (free of regex metacharacters), \<open>Group n\<close>
  the named group \<open>(?P<n>[^/]+)\<close>. \<open>match_segs\<close> is \<open>re.match\<close> on the anchored
  pattern followed by \<open>/?$\<close>: a group takes the longest run of non-slash characters
  with which the rest still matches, and \<open>$\<close> also matches before a final newline.
\<close>

datatype seg = Lit string | Group string

fun match_segs :: "seg list \<Rightarrow> string \<Rightarrow> (string \<times> string) list option" where
  "match_segs [] s =
     (if s = [] \<or> s = ''/'' \<or> s = [CHR 0x0A] \<or> s = [CHR ''/'', CHR 0x0A] then Some [] else None)"
| "match_segs (Lit l # rest) s =
     (if take (length l) s = l then match_segs rest (drop (length l) s) else None)"
| "match_segs (Group n # rest) s =
     (case concat (map (\<lambda>k. case match_segs rest (drop k s) of
                               None \<Rightarrow> []
                             | Some g \<Rightarrow> [(n, take k s) # g])
                       (rev [1..<Suc (length (takeWhile (\<lambda>c. c \<noteq> CHR ''/'') s))])) of
        [] \<Rightarrow> None
      | g # gs \<Rightarrow> Some g)"

text \<open>
  The converters of \<open>_compile\<close>: \<open>int\<close> on ASCII input (surrounding whitespace, a sign,
  decimal digits with single underscores between them), the \<open>bool\<close> lambda and \<open>str\<close>.
\<close>

definition is_space :: "char \<Rightarrow> bool" where
  "is_space c = (c \<in> set [CHR '' '', CHR 0x09, CHR 0x0A, CHR 0x0B, CHR 0x0C, CHR 0x0D])"

definition strip :: "string \<Rightarrow> string" where
  "strip s = rev (dropWhile is_space (rev (dropWhile is_space s)))"

definition digit_value :: "char \<Rightarrow> nat option" where
  "digit_value c = map_of (zip ''0123456789'' [0, 1, 2, 3, 4, 5, 6, 7, 8, 9]) c"

fun digits :: "string \<Rightarrow> nat \<Rightarrow> bool \<Rightarrow> nat option" where
  "digits [] acc after_digit = (if after_digit then Some acc else None)"
| "digits (c # cs) acc after_digit =
     (if c = CHR ''_'' then (if after_digit then digits cs acc False else None)
      else case digit_value c of
        None \<Rightarrow> None
      | Some d \<Rightarrow> digits cs (10 * acc + d) True)"

definition py_int :: "string \<Rightarrow> pyval option" where
  "py_int s =
     (case strip s of
        [] \<Rightarrow> None
      | c # cs \<Rightarrow>
          if c = CHR ''-'' then map_option (\<lambda>n. VInt (- int n)) (digits cs 0 False)
          else if c = CHR ''+'' then map_option (\<lambda>n. VInt (int n)) (digits cs 0 False)
          else map_option (\<lambda>n. VInt (int n)) (digits (c # cs) 0 False))"

definition py_bool :: "string \<Rightarrow> pyval option" where
  "py_bool s = Some (VBool (lower s = ''true''))"

definition py_str :: "string \<Rightarrow> pyval option" where
  "py_str s = Some (VStr s)"

text \<open>
  A small application in the style of the repository's tests. The state of the world
  is the list of the user callables that have run, in order.
\<close>

definition http_request :: "string \<Rightarrow> string \<Rightarrow> request" where
  "http_request m p = \<lparr>req_method = m, path = p, req_headers = [], body = [], path_params = None\<rparr>"

definition get_item :: "(string \<times> arg) list \<Rightarrow> (response, string list) io" where
  "get_item kwargs s =
     (case kwargs of
        [(k, Value v)] \<Rightarrow>
          if k = ''item_id''
          then (Inr (JSONResponse (VDict [(''id'', v)]) 200 []), s @ [''get_item''])
          else (Inl (Exception ''get_item() got an unexpected keyword argument''), s)
      | _ \<Rightarrow> (Inl (Exception ''get_item() got unexpected arguments''), s))"

definition items_route :: "string list Route" where
  "items_route =
     \<lparr>route_path = ''/items/{item_id:int}'', handler = get_item,
      handler_sig = [(''item_id'', NotModel)], methods = [''GET''],
      dependencies = [], rate_limit = None,
      compiled_regex = match_segs [Lit ''/items/'', Group ''item_id''],
      param_converters = [''item_id'' \<mapsto> py_int]\<rparr>"

definition get_item_by_name :: "(string \<times> arg) list \<Rightarrow> (response, string list) io" where
  "get_item_by_name kwargs s =
     (case kwargs of
        [(k, Value v)] \<Rightarrow>
          if k = ''name''
          then (Inr (JSONResponse (VDict [(''name'', v)]) 200 []), s @ [''get_item_by_name''])
          else (Inl (Exception ''get_item_by_name() got an unexpected keyword argument''), s)
      | _ \<Rightarrow> (Inl (Exception ''get_item_by_name() got unexpected arguments''), s))"

definition named_route :: "string list Route" where
  "named_route =
     \<lparr>route_path = ''/items/{name}'', handler = get_item_by_name,
      handler_sig = [(''name'', NotModel)], methods = [''GET''],
      dependencies = [], rate_limit = None,
      compiled_regex = match_segs [Lit ''/items/'', Group ''name''],
      param_converters = [''name'' \<mapsto> py_str]\<rparr>"

definition list_users :: "(string \<times> arg) list \<Rightarrow> (response, string list) io" where
  "list_users kwargs s =
     (if kwargs = []
      then (Inr (JSONResponse (VDict [(''users'', VList [])]) 200 []), s @ [''list_users''])
      else (Inl (Exception ''list_users() got unexpected arguments''), s))"

definition users_route :: "string list Route" where
  "users_route =
     \<lparr>route_path = ''/users'', handler = list_users,
      handler_sig = [], methods = [''GET''],
      dependencies = [], rate_limit = None,
      compiled_regex = match_segs [Lit ''/users''],
      param_converters = Map.empty\<rparr>"

text \<open>
  A middleware that appends a marker to a header of the response it gets from
  \<open>call_next\<close> (reading the old value through \<open>response.headers.get\<close>, writing with
  \<open>add_header\<close>), as in the repository's middleware tests.
\<close>

definition append_marker :: "string \<Rightarrow> string \<Rightarrow> 's middleware" where
  "append_marker name marker req call_next s =
     (case call_next req s of
        (Inl e, s') \<Rightarrow> (Inl e, s')
      | (Inr resp, s') \<Rightarrow>
          (Inr (add_header name
                  (case map_of (headers resp) (lower name) of
                     None \<Rightarrow> marker
                   | Some old \<Rightarrow> old @ '','' @ marker)
                  resp), s'))"

text \<open>Applications around the router with the one route \<open>/users\<close>.\<close>

definition users_app :: "string list Application" where
  "users_app = (Application_init False False)\<lparr>router := Some (register [users_route])\<rparr>"

definition log_call :: "string \<Rightarrow> (unit, string list) io" where
  "log_call name s = (Inr (), s @ [name])"

definition lifecycle_app :: "string list Application" where
  "lifecycle_app =
     (Application_init False False)
       \<lparr>router := Some (register [users_route]),
        startup_handlers := [log_call ''on_startup''],
        shutdown_handlers := [log_call ''on_shutdown'']\<rparr>"

definition marked_app :: "string list Application" where
  "marked_app =
     add_middleware (append_marker ''X-Order'' ''B'')
       (add_middleware (append_marker ''X-Order'' ''A'') users_app)"









text \<open>Rate limits, a rate-limited route and a route with a declared dependency.\<close>

definition two_per_second :: RateLimit where
  "two_per_second = \<lparr>requests = 2, window = 1, limit_by = ''ip''\<rparr>"

definition one_per_minute :: RateLimit where
  "one_per_minute = \<lparr>requests = 1, window = 60, limit_by = ''ip''\<rparr>"

definition limited_route :: "string list Route" where
  "limited_route = items_route\<lparr>rate_limit := Some one_per_minute\<rparr>"

definition get_db :: "(string \<times> arg) list \<Rightarrow> (pyval, string list) io" where
  "get_db kwargs s =
     (if kwargs = [] then (Inr (VStr ''db''), s @ [''get_db''])
      else (Inl (Exception ''get_db() got unexpected arguments''), s))"

definition users_with_db_route :: "string list Route" where
  "users_with_db_route = users_route\<lparr>dependencies := [Depends 0 [] get_db]\<rparr>"

text \<open>The headers that \<open>SecurityPlugin.post_request\<close> passes to \<open>update\<close>, and a store with one response.\<close>

definition security_headers :: "(string \<times> string) list" where
  "security_headers =
     [(''X-Content-Type-Options'', ''nosniff''),
      (''X-Frame-Options'', ''DENY''),
      (''X-XSS-Protection'', ''1; mode=block''),
      (''Strict-Transport-Security'', ''max-age=31536000; includeSubDomains''),
      (''Content-Security-Policy'', ''default-src '' @ [CHR 0x27] @ ''self'' @ [CHR 0x27])]"

definition ok_heap :: heap where
  "ok_heap = snd (Response_new (VStr ''ok'') 200 [] None [])"

section \<open>Routes that dispatch alike\<close>

text \<open>
  A change of the routes that keeps every attribute \<open>Route.match\<close> and
  \<open>Router.handle_request\<close> read: the handler and its signature, the methods, the
  compiled pattern and the converters.
\<close>

definition same_dispatch :: "('s Route \<Rightarrow> 's Route) \<Rightarrow> bool" where
  "same_dispatch g = (\<forall>r. handler (g r) = handler r \<and> handler_sig (g r) = handler_sig r
      \<and> methods (g r) = methods r \<and> compiled_regex (g r) = compiled_regex r
      \<and> param_converters (g r) = param_converters r)"

section \<open>The method index and the first matching route\<close>

lemma fold_method_routes:
  "fold (\<lambda>m mr. mr(m := mr m @ [r])) ms mr0 m' = mr0 m' @ replicate (count_list ms m') r"
  by (induction ms arbitrary: mr0) (auto simp: replicate_append_same)

lemma routes_foldl_add_route: "routes (foldl add_route rt rs) = routes rt @ rs"
  by (induction rs arbitrary: rt) (auto simp: add_route_def)

lemma method_routes_foldl_add_route:
  "method_routes (foldl add_route rt rs) m =
     method_routes rt m @ concat (map (\<lambda>r. replicate (count_list (methods r) m) r) rs)"
  by (induction rs arbitrary: rt) (auto simp: add_route_def fold_method_routes)

lemma routes_register: "routes (register rs) = rs"
  by (simp add: register_def routes_foldl_add_route Router_init_def)

lemma method_routes_register:
  "method_routes (register rs) m = concat (map (\<lambda>r. replicate (count_list (methods r) m) r) rs)"
  by (simp add: register_def method_routes_foldl_add_route Router_init_def)

lemma find_route_append:
  "find_route (xs @ ys) p = (case find_route xs p of Some x \<Rightarrow> Some x | None \<Rightarrow> find_route ys p)"
  by (induction xs) (auto split: option.splits)

lemma find_route_replicate:
  "find_route (replicate n r) p = (if n = 0 then None else find_route [r] p)"
  by (induction n) (auto split: option.splits)

lemma find_route_index_routes:
  "find_route (concat (map (\<lambda>r. replicate (count_list (methods r) m) r) rs)) p =
   find_route (filter (\<lambda>r. m \<in> set (methods r)) rs) p"
  by (induction rs) (auto simp: find_route_append find_route_replicate count_list_0_iff split: option.splits)

lemma find_route_None: "find_route rs p = None \<longleftrightarrow> (\<forall>r \<in> set rs. match r p = None)"
  by (induction rs) (auto split: option.splits)

lemma find_route_filter_first:
  assumes k: "k < length rs" and Q: "Q (rs ! k)" and m: "match (rs ! k) p = Some ps"
    and first: "\<forall>l < k. \<not> (Q (rs ! l) \<and> match (rs ! l) p \<noteq> None)"
  shows "find_route (filter Q rs) p = Some (rs ! k, ps)"
proof -
  have split: "rs = take k rs @ rs ! k # drop (Suc k) rs"
    using k by (rule id_take_nth_drop)
  have "\<forall>r \<in> set (filter Q (take k rs)). match r p = None"
  proof
    fix r assume "r \<in> set (filter Q (take k rs))"
    then have r: "r \<in> set (take k rs)" "Q r" by auto
    then obtain l where l: "l < length (take k rs)" "take k rs ! l = r"
      by (auto simp: in_set_conv_nth)
    then have "l < k" "rs ! l = r" by auto
    with first r(2) show "match r p = None" by auto
  qed
  then have none: "find_route (filter Q (take k rs)) p = None"
    by (simp add: find_route_None)
  have "find_route (filter Q rs) p =
        find_route (filter Q (take k rs) @ filter Q (rs ! k # drop (Suc k) rs)) p"
    by (subst split) simp
  also have "\<dots> = find_route (filter Q (rs ! k # drop (Suc k) rs)) p"
    using none by (simp add: find_route_append)
  also have "\<dots> = Some (rs ! k, ps)"
    using Q m by simp
  finally show ?thesis .
qed

lemma select_route_register:
  "select_route (register rs) req =
   find_route (filter (\<lambda>r. req_method req \<in> set (methods r)) rs) (normalize_path (path req))"
  by (simp add: select_route_def method_routes_register find_route_index_routes)

lemma handle_request_first:
  assumes k: "k < length rs"
    and meth: "req_method req \<in> set (methods (rs ! k))"
    and m: "match (rs ! k) (normalize_path (path req)) = Some params"
    and first: "\<forall>l < k. \<not> (req_method req \<in> set (methods (rs ! l))
                          \<and> match (rs ! l) (normalize_path (path req)) \<noteq> None)"
  shows "handle_request (register rs) req s = process_route (rs ! k) params req s"
proof -
  have "select_route (register rs) req = Some (rs ! k, params)"
    unfolding select_route_register
    using k meth m first by (intro find_route_filter_first) auto
  then show ?thesis by (simp add: handle_request_def)
qed

text \<open>
  Claim C1. Routes are registered in the order of the list \<open>rs\<close>. When two of them,
  registered at positions \<open>i < j\<close>, both carry the request's method and both match the
  normalized path, \<open>Router.handle_request\<close> dispatches to a route registered no later
  than the first of the two, never to the second: it is the earliest registered route
  that carries the method and matches, and the request is processed by that route with
  the parameters of its match.
\<close>

theorem first_registered_route_wins:
  assumes ij: "i < j" "j < length rs"
    and R1: "req_method req \<in> set (methods (rs ! i))" "match (rs ! i) (normalize_path (path req)) \<noteq> None"
    and R2: "req_method req \<in> set (methods (rs ! j))" "match (rs ! j) (normalize_path (path req)) \<noteq> None"
  shows "\<exists>k ps. k \<le> i \<and> k < j
           \<and> req_method req \<in> set (methods (rs ! k))
           \<and> match (rs ! k) (normalize_path (path req)) = Some ps
           \<and> (\<forall>l < k. \<not> (req_method req \<in> set (methods (rs ! l))
                          \<and> match (rs ! l) (normalize_path (path req)) \<noteq> None))
           \<and> select_route (register rs) req = Some (rs ! k, ps)
           \<and> handle_request (register rs) req s = process_route (rs ! k) ps req s"
proof -
  let ?p = "normalize_path (path req)"
  let ?Q = "\<lambda>r. req_method req \<in> set (methods r)"
  let ?P = "\<lambda>l. ?Q (rs ! l) \<and> match (rs ! l) ?p \<noteq> None"
  define k where "k = (LEAST l. ?P l)"
  have Pi: "?P i" using R1 by simp
  have Pk: "?P k" unfolding k_def using Pi by (rule LeastI)
  have ki: "k \<le> i" unfolding k_def using Pi by (rule Least_le)
  have least: "\<forall>l < k. \<not> ?P l"
    unfolding k_def using not_less_Least by blast
  from Pk obtain ps where ps: "match (rs ! k) ?p = Some ps" by auto
  have klen: "k < length rs" using ki ij by simp
  have sel: "select_route (register rs) req = Some (rs ! k, ps)"
    unfolding select_route_register
    using klen Pk ps least by (intro find_route_filter_first) auto
  have "handle_request (register rs) req s = process_route (rs ! k) ps req s"
    by (simp add: handle_request_def sel)
  with ki ij Pk ps least sel show ?thesis by (intro exI[of _ k] exI[of _ ps]) auto
qed

theorem first_registered_route_wins_witness:
  "select_route (register [items_route, named_route]) (http_request ''GET'' ''/items/123'')
     = Some (items_route, [(''item_id'', VInt 123)])
   \<and> handle_request (register [items_route, named_route]) (http_request ''GET'' ''/items/123'') []
     = (Inr (JSONResponse (VDict [(''id'', VInt 123)]) 200 []),
        (http_request ''GET'' ''/items/123'')\<lparr>path_params := Some [(''item_id'', VInt 123)]\<rparr>,
        [''get_item''])"
proof -
  let ?rs = "[items_route, named_route]"
  let ?req = "http_request ''GET'' ''/items/123''"
  have p: "normalize_path (path ?req) = ''/items/123''"
    by (simp add: http_request_def normalize_path_def rstrip_def)
  have m1: "match items_route ''/items/123'' = Some [(''item_id'', VInt 123)]"
    by (simp add: match_def items_route_def py_int_def strip_def is_space_def digit_value_def)
  have m2: "match named_route ''/items/123'' = Some [(''name'', VStr ''123'')]"
    by (simp add: match_def named_route_def py_str_def)
  have meth: "req_method ?req \<in> set (methods items_route)" "req_method ?req \<in> set (methods named_route)"
    by (simp_all add: http_request_def items_route_def named_route_def)
  from first_registered_route_wins[where i = 0 and j = 1 and rs = ?rs and req = ?req and s = "[]"]
  obtain k ps where k: "k \<le> 0" "match (?rs ! k) (normalize_path (path ?req)) = Some ps"
      "select_route (register ?rs) ?req = Some (?rs ! k, ps)"
      "handle_request (register ?rs) ?req [] = process_route (?rs ! k) ps ?req []"
    using p m1 m2 meth by auto
  then have sel: "select_route (register ?rs) ?req = Some (items_route, [(''item_id'', VInt 123)])"
    and hr: "handle_request (register ?rs) ?req [] = process_route items_route [(''item_id'', VInt 123)] ?req []"
    using p m1 by auto
  have "process_route items_route [(''item_id'', VInt 123)] ?req [] =
        (Inr (JSONResponse (VDict [(''id'', VInt 123)]) 200 []),
         ?req\<lparr>path_params := Some [(''item_id'', VInt 123)]\<rparr>, [''get_item''])"
    by (simp add: process_route_def handler_params_def items_route_def get_item_def)
  with sel hr show ?thesis by simp
qed

section \<open>Failed conversions\<close>

lemma convert_groups_fail:
  "(n, v) \<in> set g \<Longrightarrow> convs n = Some c \<Longrightarrow> c v = None \<Longrightarrow> convert_groups convs g acc = None"
  by (induction g arbitrary: acc) (auto split: option.splits)

lemma collect_allowed_skip:
  "\<not> truthy (match r p) \<Longrightarrow> collect_allowed (xs @ r # ys) p acc = collect_allowed (xs @ ys) p acc"
  by (induction xs arbitrary: acc) auto

lemma collect_allowed_none:
  "\<forall>r \<in> set rs. \<not> truthy (match r p) \<Longrightarrow> collect_allowed rs p acc = acc"
  by (induction rs arbitrary: acc) auto

lemma handle_request_skip:
  assumes "match r (normalize_path (path req)) = None"
  shows "handle_request (register (xs @ r # ys)) req s = handle_request (register (xs @ ys)) req s"
proof -
  have "select_route (register (xs @ r # ys)) req = select_route (register (xs @ ys)) req"
    using assms by (simp add: select_route_register find_route_append split: option.splits)
  moreover have "collect_allowed (xs @ r # ys) (normalize_path (path req)) [] =
                 collect_allowed (xs @ ys) (normalize_path (path req)) []"
    using assms by (intro collect_allowed_skip) (simp add: truthy_def)
  ultimately show ?thesis
    by (simp add: handle_request_def routes_register split: option.splits)
qed

lemma handle_request_not_found:
  assumes "\<forall>r \<in> set rs. match r (normalize_path (path req)) = None"
  shows "handle_request (register rs) req s =
         (Inr (JSONResponse (VDict [(''error'', VStr ''Not Found'')]) 404 []), req, s)"
proof -
  have "select_route (register rs) req = None"
    using assms by (simp add: select_route_register find_route_None)
  moreover have "collect_allowed rs (normalize_path (path req)) [] = []"
    using assms by (intro collect_allowed_none) (simp add: truthy_def)
  ultimately show ?thesis
    by (simp add: handle_request_def routes_register)
qed

text \<open>
  Claim C5. When the pattern of a route matches the path and one captured segment
  fails its converter, \<open>Route.match\<close> is \<open>None\<close>, not an error. The router answers as
  if the route were not registered; when no other route matches, the answer is the 404
  response (not a 422); and the routes registered after it are still tried: when none
  of the routes before it carries the method and matches, the request is processed by
  the first route after it that does.
\<close>

theorem conversion_failure_is_no_match:
  assumes "compiled_regex r (normalize_path (path req)) = Some groups"
    and "(n, v) \<in> set groups"
    and "param_converters r n = Some converter"
    and "converter v = None"
  shows "match r (normalize_path (path req)) = None
       \<and> handle_request (register (xs @ r # ys)) req s = handle_request (register (xs @ ys)) req s
       \<and> ((\<forall>x \<in> set (xs @ ys). match x (normalize_path (path req)) = None) \<longrightarrow>
            handle_request (register (xs @ r # ys)) req s =
              (Inr (JSONResponse (VDict [(''error'', VStr ''Not Found'')]) 404 []), req, s))
       \<and> (\<forall>k params.
             k < length ys
             \<and> req_method req \<in> set (methods (ys ! k))
             \<and> match (ys ! k) (normalize_path (path req)) = Some params
             \<and> (\<forall>x \<in> set xs. \<not> (req_method req \<in> set (methods x)
                                \<and> match x (normalize_path (path req)) \<noteq> None))
             \<and> (\<forall>l < k. \<not> (req_method req \<in> set (methods (ys ! l))
                            \<and> match (ys ! l) (normalize_path (path req)) \<noteq> None))
             \<longrightarrow> handle_request (register (xs @ r # ys)) req s
                   = process_route (ys ! k) params req s)"
proof -
  let ?p = "normalize_path (path req)"
  have none: "match r ?p = None"
    using assms by (simp add: match_def convert_groups_fail)
  have skip: "handle_request (register (xs @ r # ys)) req s = handle_request (register (xs @ ys)) req s"
    using none by (rule handle_request_skip)
  have nf: "(\<forall>x \<in> set (xs @ ys). match x ?p = None) \<longrightarrow>
            handle_request (register (xs @ r # ys)) req s =
              (Inr (JSONResponse (VDict [(''error'', VStr ''Not Found'')]) 404 []), req, s)"
    using skip handle_request_not_found[of "xs @ ys" req s] by simp
  have cont: "\<forall>k params.
             k < length ys
             \<and> req_method req \<in> set (methods (ys ! k))
             \<and> match (ys ! k) ?p = Some params
             \<and> (\<forall>x \<in> set xs. \<not> (req_method req \<in> set (methods x) \<and> match x ?p \<noteq> None))
             \<and> (\<forall>l < k. \<not> (req_method req \<in> set (methods (ys ! l)) \<and> match (ys ! l) ?p \<noteq> None))
             \<longrightarrow> handle_request (register (xs @ r # ys)) req s
                   = process_route (ys ! k) params req s"
  proof (intro allI impI)
    fix k params
    assume h: "k < length ys
             \<and> req_method req \<in> set (methods (ys ! k))
             \<and> match (ys ! k) ?p = Some params
             \<and> (\<forall>x \<in> set xs. \<not> (req_method req \<in> set (methods x) \<and> match x ?p \<noteq> None))
             \<and> (\<forall>l < k. \<not> (req_method req \<in> set (methods (ys ! l)) \<and> match (ys ! l) ?p \<noteq> None))"
    let ?rs = "xs @ ys"
    let ?k = "length xs + k"
    have k: "?k < length ?rs" using h by simp
    have at: "?rs ! ?k = ys ! k" by (simp add: nth_append)
    have first: "\<forall>l < ?k. \<not> (req_method req \<in> set (methods (?rs ! l)) \<and> match (?rs ! l) ?p \<noteq> None)"
    proof (intro allI impI)
      fix l assume l: "l < ?k"
      show "\<not> (req_method req \<in> set (methods (?rs ! l)) \<and> match (?rs ! l) ?p \<noteq> None)"
      proof (cases "l < length xs")
        case True
        then have "?rs ! l \<in> set xs" by (simp add: nth_append)
        with h show ?thesis by blast
      next
        case False
        then have "?rs ! l = ys ! (l - length xs)" "l - length xs < k"
          using l by (simp_all add: nth_append)
        with h show ?thesis by simp
      qed
    qed
    have "handle_request (register ?rs) req s = process_route (?rs ! ?k) params req s"
      using k first h at by (intro handle_request_first) simp_all
    with skip at show "handle_request (register (xs @ r # ys)) req s = process_route (ys ! k) params req s"
      by simp
  qed
  from none skip nf cont show ?thesis by blast
qed

theorem conversion_failure_is_no_match_witness:
  "match items_route ''/items/abc'' = None
   \<and> handle_request (register [items_route]) (http_request ''GET'' ''/items/abc'') []
     = (Inr (JSONResponse (VDict [(''error'', VStr ''Not Found'')]) 404 []),
        http_request ''GET'' ''/items/abc'', [])
   \<and> handle_request (register [items_route, named_route]) (http_request ''GET'' ''/items/abc'') []
     = (Inr (JSONResponse (VDict [(''name'', VStr ''abc'')]) 200 []),
        (http_request ''GET'' ''/items/abc'')\<lparr>path_params := Some [(''name'', VStr ''abc'')]\<rparr>,
        [''get_item_by_name''])"
proof -
  let ?req = "http_request ''GET'' ''/items/abc''"
  have p: "normalize_path (path ?req) = ''/items/abc''"
    by (simp add: http_request_def normalize_path_def rstrip_def)
  have g: "compiled_regex items_route ''/items/abc'' = Some [(''item_id'', ''abc'')]"
    by (simp add: items_route_def)
  have cv: "param_converters items_route ''item_id'' = Some py_int"
    by (simp add: items_route_def)
  have f: "py_int ''abc'' = None"
    by (simp add: py_int_def strip_def is_space_def digit_value_def)
  have g': "compiled_regex items_route (normalize_path (path ?req)) = Some [(''item_id'', ''abc'')]"
    using p g by simp
  have mem: "(''item_id'', ''abc'') \<in> set [(''item_id'', ''abc'')]"
    by simp
  note fact = conversion_failure_is_no_match[OF g' mem cv f]
  from fact[where xs = "[]" and ys = "[]" and s = "[]", THEN conjunct1]
  have a: "match items_route ''/items/abc'' = None"
    using p by simp
  from fact[where xs = "[]" and ys = "[]" and s = "[]", THEN conjunct2, THEN conjunct2, THEN conjunct1]
  have b: "handle_request (register [items_route]) ?req [] =
          (Inr (JSONResponse (VDict [(''error'', VStr ''Not Found'')]) 404 []), ?req, [])"
    by simp
  have m2: "match named_route ''/items/abc'' = Some [(''name'', VStr ''abc'')]"
    by (simp add: match_def named_route_def py_str_def)
  have meth: "req_method ?req \<in> set (methods named_route)"
    by (simp add: http_request_def named_route_def)
  from fact[where xs = "[]" and ys = "[named_route]" and s = "[]",
      THEN conjunct2, THEN conjunct2, THEN conjunct2, rule_format, of 0 "[(''name'', VStr ''abc'')]"]
  have c: "handle_request (register [items_route, named_route]) ?req []
      = process_route named_route [(''name'', VStr ''abc'')] ?req []"
    using p m2 meth by simp
  have d: "process_route named_route [(''name'', VStr ''abc'')] ?req []
      = (Inr (JSONResponse (VDict [(''name'', VStr ''abc'')]) 200 []),
         ?req\<lparr>path_params := Some [(''name'', VStr ''abc'')]\<rparr>, [''get_item_by_name''])"
    by (simp add: process_route_def handler_params_def named_route_def get_item_by_name_def)
  from a b c d show ?thesis by simp
qed

section \<open>Method not allowed\<close>

lemma collect_allowed_set:
  "set (collect_allowed rs p allowed) =
     set allowed \<union> (\<Union>r \<in> {r \<in> set rs. truthy (match r p)}. set (methods r))"
proof (induction rs arbitrary: allowed)
  case Nil
  then show ?case by simp
next
  case (Cons r rs)
  have ins: "\<And>ms acc. set (fold List.insert ms acc) = set ms \<union> set (acc :: string list)"
  proof -
    fix ms and acc :: "string list"
    show "set (fold List.insert ms acc) = set ms \<union> set acc"
      by (induction ms arbitrary: acc) auto
  qed
  show ?case using Cons.IH by (auto simp: ins)
qed

text \<open>
  Claim C4, at a route without path parameters: \<open>/users\<close> is registered for \<open>GET\<close> only
  and matches the path with the empty dict, which the second loop of \<open>handle_request\<close>
  tests for truth; a \<open>POST\<close> to \<open>/users\<close> is answered 404, not 405 with \<open>Allow: GET\<close>.
\<close>

theorem method_not_allowed_missed:
  "handle_request (register [users_route]) (http_request ''POST'' ''/users'') []
     = (Inr (JSONResponse (VDict [(''error'', VStr ''Not Found'')]) 404 []),
        http_request ''POST'' ''/users'', [])
   \<and> match users_route ''/users'' = Some []
   \<and> set (methods users_route) = {''GET''}"
  by (simp add: handle_request_def select_route_def register_def add_route_def Router_init_def
      users_route_def http_request_def normalize_path_def rstrip_def match_def truthy_def)

section \<open>The sliding window of the rate limiter\<close>

lemma is_allowed_under_limit:
  assumes "int (length (rl key)) < requests limit"
  shows "fst (is_allowed rl key limit now) = True"
    and "length (snd (is_allowed rl key limit now) key) \<le> Suc (length (rl key))"
proof -
  let ?kept = "filter (\<lambda>ts. now - ts < real_of_int (window limit)) (rl key)"
  have "length ?kept \<le> length (rl key)" by (rule length_filter_le)
  with assms have "\<not> requests limit \<le> int (length ?kept)" by linarith
  then show "fst (is_allowed rl key limit now) = True"
    and "length (snd (is_allowed rl key limit now) key) \<le> Suc (length (rl key))"
    using \<open>length ?kept \<le> length (rl key)\<close> by (simp_all add: is_allowed_def Let_def)
qed

lemma first_calls_allowed:
  "int (length (rl key)) + int (length nows) \<le> requests limit \<Longrightarrow>
   fst (is_allowed_calls rl key limit nows) = replicate (length nows) True"
proof (induction nows arbitrary: rl)
  case Nil
  then show ?case by simp
next
  case (Cons now later)
  obtain ok rl' where step: "is_allowed rl key limit now = (ok, rl')"
    by (cases "is_allowed rl key limit now")
  have lt: "int (length (rl key)) < requests limit" using Cons.prems by simp
  from is_allowed_under_limit[where rl = rl and key = key and limit = limit and now = now, OF lt] step
  have ok: "ok = True" and len: "length (rl' key) \<le> Suc (length (rl key))" by simp_all
  have "int (length (rl' key)) + int (length later) \<le> requests limit"
    using len Cons.prems by simp
  from Cons.IH[where rl = rl', OF this]
  have rest: "fst (is_allowed_calls rl' key limit later) = replicate (length later) True" .
  obtain oks rl'' where calls: "is_allowed_calls rl' key limit later = (oks, rl'')"
    by (cases "is_allowed_calls rl' key limit later")
  with rest have "oks = replicate (length later) True" by simp
  then show ?case using step ok calls by simp
qed

lemma is_allowed_within:
  assumes "int (length (rl key)) < requests limit"
    and "\<forall>ts \<in> set (rl key). now - ts < real_of_int (window limit)"
  shows "is_allowed rl key limit now = (True, rl(key := rl key @ [now]))"
  using assms by (simp add: is_allowed_def Let_def)

lemma calls_within_record:
  "int (length (rl key)) + int (length nows) \<le> requests limit \<Longrightarrow>
   \<forall>a \<in> set nows. \<forall>b \<in> set (rl key) \<union> set nows. a - b < real_of_int (window limit) \<Longrightarrow>
   snd (is_allowed_calls rl key limit nows) = rl(key := rl key @ nows)"
proof (induction nows arbitrary: rl)
  case Nil
  then show ?case by simp
next
  case (Cons now later)
  have lt: "int (length (rl key)) < requests limit" using Cons.prems(1) by simp
  have win: "\<forall>ts \<in> set (rl key). now - ts < real_of_int (window limit)"
    using Cons.prems(2) by simp
  define rl' where "rl' = rl(key := rl key @ [now])"
  have key': "rl' key = rl key @ [now]" by (simp add: rl'_def)
  have step: "is_allowed rl key limit now = (True, rl')"
    unfolding rl'_def using lt win by (rule is_allowed_within)
  have a: "int (length (rl' key)) + int (length later) \<le> requests limit"
    using Cons.prems(1) key' by simp
  have b: "\<forall>a \<in> set later. \<forall>b \<in> set (rl' key) \<union> set later. a - b < real_of_int (window limit)"
    using Cons.prems(2) key' by auto
  obtain oks rl'' where calls: "is_allowed_calls rl' key limit later = (oks, rl'')"
    by (cases "is_allowed_calls rl' key limit later")
  from Cons.IH[where rl = rl', OF a b] calls
  have "rl'' = rl'(key := rl' key @ later)" by (auto simp: fun_eq_iff)
  then have "rl'' = rl(key := rl key @ now # later)" by (auto simp: rl'_def fun_eq_iff)
  then show ?case using step calls by simp
qed

lemma is_allowed_full:
  assumes "requests limit = int (length (rl key))"
    and "\<forall>ts \<in> set (rl key). now - ts < real_of_int (window limit)"
  shows "is_allowed rl key limit now = (False, rl)"
  using assms by (simp add: is_allowed_def Let_def)

lemma is_allowed_expired:
  assumes "0 < requests limit"
    and "\<forall>ts \<in> set (rl key). real_of_int (window limit) < now - ts"
  shows "is_allowed rl key limit now = (True, rl(key := [now]))"
proof -
  have "filter (\<lambda>ts. now - ts < real_of_int (window limit)) (rl key) = []"
    using assms(2) by (auto simp: filter_empty_conv)
  then show ?thesis using assms(1) by (simp add: is_allowed_def Let_def)
qed

lemma is_allowed_pruned:
  assumes "0 < window limit" and "ts \<in> set (snd (is_allowed rl key limit now) key)"
  shows "now - real_of_int (window limit) < ts"
  using assms by (auto simp: is_allowed_def Let_def split: if_splits)

text \<open>
  Claim C8. A fresh limiter with limit \<open>n \<ge> 1\<close> per window of \<open>w > 0\<close> seconds, one
  key, and \<open>n\<close> calls followed by one more, all within one window: the first \<open>n\<close>
  calls are allowed and their timestamps recorded; the next call is rejected and leaves
  the limiter as it was; a call more than \<open>w\<close> seconds after all of them is allowed
  again. And after any check, from any state, every timestamp of the key is later than
  \<open>now - w\<close>.
\<close>

theorem rate_limiter_sliding_window:
  assumes n: "requests limit = int (length nows)" "nows \<noteq> []"
    and w: "0 < window limit"
    and within: "\<forall>a \<in> set (nows @ [t_over]). \<forall>b \<in> set (nows @ [t_over]).
                   a - b < real_of_int (window limit)"
    and late: "\<forall>a \<in> set nows. real_of_int (window limit) < t_late - a"
  shows "fst (is_allowed_calls RateLimiter_init key limit nows) = replicate (length nows) True
       \<and> snd (is_allowed_calls RateLimiter_init key limit nows) key = nows
       \<and> is_allowed (snd (is_allowed_calls RateLimiter_init key limit nows)) key limit t_over
           = (False, snd (is_allowed_calls RateLimiter_init key limit nows))
       \<and> is_allowed (snd (is_allowed_calls RateLimiter_init key limit nows)) key limit t_late
           = (True, (snd (is_allowed_calls RateLimiter_init key limit nows))(key := [t_late]))
       \<and> (\<forall>rl now. \<forall>ts \<in> set (snd (is_allowed rl key limit now) key).
             now - real_of_int (window limit) < ts)"
proof -
  let ?rl = "snd (is_allowed_calls RateLimiter_init key limit nows)"
  have first: "fst (is_allowed_calls RateLimiter_init key limit nows) = replicate (length nows) True"
    using n(1) by (intro first_calls_allowed) (simp add: RateLimiter_init_def)
  have rl: "?rl = RateLimiter_init(key := nows)"
    using n(1) within
    by (subst calls_within_record) (auto simp: RateLimiter_init_def)
  then have key: "?rl key = nows" by simp
  have over: "is_allowed ?rl key limit t_over = (False, ?rl)"
    using n(1) within key by (intro is_allowed_full) auto
  have again: "is_allowed ?rl key limit t_late = (True, ?rl(key := [t_late]))"
    using n late key by (intro is_allowed_expired) auto
  have inv: "\<forall>rl now. \<forall>ts \<in> set (snd (is_allowed rl key limit now) key).
             now - real_of_int (window limit) < ts"
    using w is_allowed_pruned by blast
  from first key over again inv show ?thesis by blast
qed

theorem rate_limiter_sliding_window_witness:
  "fst (is_allowed_calls RateLimiter_init ''client'' two_per_second [0, 1/10]) = [True, True]
   \<and> snd (is_allowed_calls RateLimiter_init ''client'' two_per_second [0, 1/10]) ''client'' = [0, 1/10]
   \<and> is_allowed (snd (is_allowed_calls RateLimiter_init ''client'' two_per_second [0, 1/10]))
         ''client'' two_per_second (2/10)
       = (False, snd (is_allowed_calls RateLimiter_init ''client'' two_per_second [0, 1/10]))
   \<and> fst (is_allowed (snd (is_allowed_calls RateLimiter_init ''client'' two_per_second [0, 1/10]))
         ''client'' two_per_second (3/2)) = True"
proof -
  have h: "requests two_per_second = int (length [0::real, 1/10])" "[0::real, 1/10] \<noteq> []"
    "0 < window two_per_second"
    "\<forall>a \<in> set ([0, 1/10] @ [2/10::real]). \<forall>b \<in> set ([0, 1/10] @ [2/10]).
        a - b < real_of_int (window two_per_second)"
    "\<forall>a \<in> set [0::real, 1/10]. real_of_int (window two_per_second) < 3/2 - a"
    by (simp_all add: two_per_second_def)
  note fact = rate_limiter_sliding_window[OF h, where key = "''client''"]
  have a: "fst (is_allowed_calls RateLimiter_init ''client'' two_per_second [0, 1/10]) = [True, True]"
    using fact[THEN conjunct1] by (simp add: numeral_2_eq_2)
  from a fact show ?thesis by simp
qed

section \<open>Rate limits and dependencies in dispatch\<close>

lemma match_same: "same_dispatch g \<Longrightarrow> match (g r) p = match r p"
  unfolding same_dispatch_def match_def by metis

lemma find_route_same:
  "same_dispatch g \<Longrightarrow>
   find_route (map g rs) p = map_option (\<lambda>(r, ps). (g r, ps)) (find_route rs p)"
  by (induction rs) (auto simp: match_same split: option.splits)

lemma collect_allowed_same:
  "same_dispatch g \<Longrightarrow> collect_allowed (map g rs) p acc = collect_allowed rs p acc"
  by (induction rs arbitrary: acc) (auto simp: match_same same_dispatch_def)

lemma process_route_same:
  "same_dispatch g \<Longrightarrow> process_route (g r) ps req s = process_route r ps req s"
  unfolding same_dispatch_def process_route_def handler_params_def by metis

lemma filter_methods_same:
  "same_dispatch g \<Longrightarrow>
   filter (\<lambda>r. m \<in> set (methods r)) (map g rs) = map g (filter (\<lambda>r. m \<in> set (methods r)) rs)"
  by (induction rs) (auto simp: same_dispatch_def)

lemma handle_request_same:
  assumes "same_dispatch g"
  shows "handle_request (register (map g rs)) req s = handle_request (register rs) req s"
proof -
  let ?p = "normalize_path (path req)"
  have sel: "select_route (register (map g rs)) req =
             map_option (\<lambda>(r, ps). (g r, ps)) (select_route (register rs) req)"
    using assms by (simp add: select_route_register filter_methods_same find_route_same)
  show ?thesis
  proof (cases "select_route (register rs) req")
    case None
    with sel assms show ?thesis
      by (simp add: handle_request_def routes_register collect_allowed_same)
  next
    case (Some a)
    obtain r ps where a: "a = (r, ps)" by (cases a)
    with Some sel assms show ?thesis
      by (simp add: handle_request_def process_route_same)
  qed
qed

lemma same_dispatch_rate_limit: "same_dispatch (\<lambda>r. r\<lparr>rate_limit := f r\<rparr>)"
  by (simp add: same_dispatch_def)

lemma same_dispatch_dependencies: "same_dispatch (\<lambda>r. r\<lparr>dependencies := f r\<rparr>)"
  by (simp add: same_dispatch_def)

lemma status_code_JSONResponse: "status_code (JSONResponse c st hs) = st"
  by (simp add: JSONResponse_def Response_def)

lemma process_route_429:
  assumes "process_route r params req s = (Inr resp, req', s')" and "status_code resp = 429"
  shows "\<exists>hp. fst (handler r hp s) = Inr resp"
proof -
  let ?req = "req\<lparr>path_params := Some params\<rparr>"
  show ?thesis
  proof (cases "body_params ?req (handler_sig r) (handler_params r params ?req)")
    case (Inl e)
    with assms have "on_exception e = Inr resp" by (simp add: process_route_def)
    with assms(2) show ?thesis by (cases e) (auto simp: status_code_JSONResponse)
  next
    case (Inr hp)
    obtain res s1 where h: "handler r hp s = (res, s1)" by (cases "handler r hp s")
    show ?thesis
    proof (cases res)
      case (Inl e)
      with assms Inr h have "on_exception e = Inr resp" by (simp add: process_route_def)
      with assms(2) show ?thesis by (cases e) (auto simp: status_code_JSONResponse)
    next
      case r: (Inr resp1)
      with assms Inr h have "resp1 = resp" by (simp add: process_route_def)
      with h r have "fst (handler r hp s) = Inr resp" by simp
      then show ?thesis by blast
    qed
  qed
qed

text \<open>
  Claim C2, as the code has it. \<open>Router.handle_request\<close> takes no limiter and never
  reads \<open>rate_limit\<close>. A request whose first matching route carries a rate limit is
  processed by that route like any matched request, whatever the state of any limiter
  window: once the handler's keyword arguments are bound, the handler runs on the state
  the request arrived in, and its response is returned (a \<open>ValidationError\<close> it raises
  becomes the 422 response, any other exception is raised again). A 429 response can
  only be one that the handler itself returned. And the outcome is that of the same
  routes registered with any other rate limits, or none.
\<close>

theorem rate_limit_has_no_effect:
  assumes k: "k < length rs"
    and lim: "rate_limit (rs ! k) = Some limit"
    and meth: "req_method req \<in> set (methods (rs ! k))"
    and m: "match (rs ! k) (normalize_path (path req)) = Some params"
    and first: "\<forall>l < k. \<not> (req_method req \<in> set (methods (rs ! l))
                          \<and> match (rs ! l) (normalize_path (path req)) \<noteq> None)"
  shows "handle_request (register rs) req s = process_route (rs ! k) params req s
       \<and> (\<forall>hp. body_params (req\<lparr>path_params := Some params\<rparr>) (handler_sig (rs ! k))
                  (handler_params (rs ! k) params (req\<lparr>path_params := Some params\<rparr>)) = Inr hp
             \<longrightarrow> handle_request (register rs) req s
                   = (case handler (rs ! k) hp s of
                        (Inl e, s') \<Rightarrow> (on_exception e, req\<lparr>path_params := Some params\<rparr>, s')
                      | (Inr resp, s') \<Rightarrow> (Inr resp, req\<lparr>path_params := Some params\<rparr>, s')))
       \<and> (\<forall>resp req' s'. handle_request (register rs) req s = (Inr resp, req', s')
             \<and> status_code resp = 429
             \<longrightarrow> (\<exists>hp. fst (handler (rs ! k) hp s) = Inr resp))
       \<and> handle_request (register (map (\<lambda>r. r\<lparr>rate_limit := limit_of r\<rparr>) rs)) req s
           = handle_request (register rs) req s"
proof -
  have disp: "handle_request (register rs) req s = process_route (rs ! k) params req s"
    using k meth m first by (rule handle_request_first)
  have run: "\<forall>hp. body_params (req\<lparr>path_params := Some params\<rparr>) (handler_sig (rs ! k))
                  (handler_params (rs ! k) params (req\<lparr>path_params := Some params\<rparr>)) = Inr hp
             \<longrightarrow> handle_request (register rs) req s
                   = (case handler (rs ! k) hp s of
                        (Inl e, s') \<Rightarrow> (on_exception e, req\<lparr>path_params := Some params\<rparr>, s')
                      | (Inr resp, s') \<Rightarrow> (Inr resp, req\<lparr>path_params := Some params\<rparr>, s'))"
    by (simp add: disp process_route_def split: prod.splits sum.splits)
  have own: "\<forall>resp req' s'. handle_request (register rs) req s = (Inr resp, req', s')
             \<and> status_code resp = 429
             \<longrightarrow> (\<exists>hp. fst (handler (rs ! k) hp s) = Inr resp)"
    using disp process_route_429 by metis
  have indep: "handle_request (register (map (\<lambda>r. r\<lparr>rate_limit := limit_of r\<rparr>) rs)) req s
           = handle_request (register rs) req s"
    using same_dispatch_rate_limit by (rule handle_request_same)
  from disp run own indep show ?thesis by blast
qed

theorem rate_limit_has_no_effect_witness:
  "rate_limit limited_route = Some one_per_minute
   \<and> handle_request (register [limited_route]) (http_request ''GET'' ''/items/8'') []
       = (Inr (JSONResponse (VDict [(''id'', VInt 8)]) 200 []),
          (http_request ''GET'' ''/items/8'')\<lparr>path_params := Some [(''item_id'', VInt 8)]\<rparr>,
          [''get_item''])"
proof -
  let ?req = "http_request ''GET'' ''/items/8''"
  let ?params = "[(''item_id'', VInt 8)]"
  have p: "normalize_path (path ?req) = ''/items/8''"
    by (simp add: http_request_def normalize_path_def rstrip_def)
  have lim: "rate_limit ([limited_route] ! 0) = Some one_per_minute"
    by (simp add: limited_route_def)
  have meth: "req_method ?req \<in> set (methods ([limited_route] ! 0))"
    by (simp add: http_request_def limited_route_def items_route_def)
  have m: "match ([limited_route] ! 0) (normalize_path (path ?req)) = Some ?params"
    by (simp add: p match_def limited_route_def items_route_def py_int_def strip_def is_space_def
        digit_value_def)
  have first: "\<forall>l < (0::nat). \<not> (req_method ?req \<in> set (methods ([limited_route] ! l))
                          \<and> match ([limited_route] ! l) (normalize_path (path ?req)) \<noteq> None)"
    by simp
  have bp: "body_params (?req\<lparr>path_params := Some ?params\<rparr>) (handler_sig ([limited_route] ! 0))
              (handler_params ([limited_route] ! 0) ?params (?req\<lparr>path_params := Some ?params\<rparr>))
            = Inr [(''item_id'', Value (VInt 8))]"
    by (simp add: handler_params_def limited_route_def items_route_def)
  have run: "handler ([limited_route] ! 0) [(''item_id'', Value (VInt 8))] []
      = (Inr (JSONResponse (VDict [(''id'', VInt 8)]) 200 []), [''get_item''])"
    by (simp add: limited_route_def items_route_def get_item_def)
  have len: "(0::nat) < length [limited_route]" by simp
  note fact = rate_limit_has_no_effect[where rs = "[limited_route]" and k = 0 and s = "[]",
      OF len lim meth m first, THEN conjunct2, THEN conjunct1]
  from fact bp
  have "handle_request (register [limited_route]) ?req []
      = (case handler ([limited_route] ! 0) [(''item_id'', Value (VInt 8))] [] of
           (Inl e, s') \<Rightarrow> (on_exception e, ?req\<lparr>path_params := Some ?params\<rparr>, s')
         | (Inr resp, s') \<Rightarrow> (Inr resp, ?req\<lparr>path_params := Some ?params\<rparr>, s'))"
    by blast
  with run lim show ?thesis by simp
qed

text \<open>
  Claim C3, as the code has it. \<open>Router.handle_request\<close> never reads \<open>dependencies\<close>:
  whatever dependencies the routes declare, and whatever their callables would do to
  the state, the response, the request and the state after the call are those of the
  same routes registered with any other dependencies, or none. No dependency callable
  runs during dispatch, and the handler's keyword arguments are the path parameters,
  the context or request, and the body models.
\<close>

theorem dependencies_have_no_effect:
  "handle_request (register (map (\<lambda>r. r\<lparr>dependencies := deps_of r\<rparr>) rs)) req s
     = handle_request (register rs) req s"
  using same_dispatch_dependencies by (rule handle_request_same)

text \<open>
  Against claim C2 as stated: the route carries a limit of one request per minute, and
  for the client's key the window is exhausted (\<open>is_allowed\<close> on a limiter that holds
  one timestamp of a second ago is \<open>False\<close>); the second request to the route is
  answered 200 by the handler, which runs again, not 429.
\<close>

theorem rate_limit_not_consulted:
  "rate_limit limited_route = Some one_per_minute
   \<and> is_allowed (RateLimiter_init(''127.0.0.1'' := [0])) ''127.0.0.1'' one_per_minute 1
       = (False, RateLimiter_init(''127.0.0.1'' := [0]))
   \<and> handle_request (register [limited_route]) (http_request ''GET'' ''/items/7'') [''get_item'']
       = (Inr (JSONResponse (VDict [(''id'', VInt 7)]) 200 []),
          (http_request ''GET'' ''/items/7'')\<lparr>path_params := Some [(''item_id'', VInt 7)]\<rparr>,
          [''get_item'', ''get_item''])
   \<and> status_code (JSONResponse (VDict [(''id'', VInt 7)]) 200 []) \<noteq> 429"
proof -
  have 1: "rate_limit limited_route = Some one_per_minute"
    by (simp add: limited_route_def)
  have 2: "is_allowed (RateLimiter_init(''127.0.0.1'' := [0])) ''127.0.0.1'' one_per_minute 1
       = (False, RateLimiter_init(''127.0.0.1'' := [0]))"
    by (simp add: is_allowed_def one_per_minute_def)
  have m: "match limited_route ''/items/7'' = Some [(''item_id'', VInt 7)]"
    by (simp add: match_def limited_route_def items_route_def py_int_def strip_def is_space_def
        digit_value_def)
  have 3: "handle_request (register [limited_route]) (http_request ''GET'' ''/items/7'') [''get_item'']
       = (Inr (JSONResponse (VDict [(''id'', VInt 7)]) 200 []),
          (http_request ''GET'' ''/items/7'')\<lparr>path_params := Some [(''item_id'', VInt 7)]\<rparr>,
          [''get_item'', ''get_item''])"
    using m
    by (simp add: handle_request_def select_route_def register_def add_route_def Router_init_def
        http_request_def normalize_path_def rstrip_def process_route_def handler_params_def
        limited_route_def items_route_def get_item_def)
  have 4: "status_code (JSONResponse (VDict [(''id'', VInt 7)]) 200 []) \<noteq> 429"
    by (simp add: JSONResponse_def Response_def)
  from 1 2 3 4 show ?thesis by blast
qed

text \<open>
  Against claim C3 as stated: the route declares the dependency \<open>get_db\<close>, which
  \<open>Depends.__call__\<close> would resolve to a value by running it; the router calls the
  handler with no keyword argument and \<open>get_db\<close> does not run.
\<close>

theorem dependencies_not_resolved:
  "dependencies users_with_db_route = [Depends 0 [] get_db]
   \<and> depends_call (Depends 0 [] get_db) (http_request ''GET'' ''/users'') Map.empty []
       = (Inr (VStr ''db''), [0 \<mapsto> VStr ''db''], [''get_db''])
   \<and> handle_request (register [users_with_db_route]) (http_request ''GET'' ''/users'') []
       = (Inr (JSONResponse (VDict [(''users'', VList [])]) 200 []),
          (http_request ''GET'' ''/users'')\<lparr>path_params := Some []\<rparr>,
          [''list_users''])
   \<and> handler_params users_with_db_route [] (http_request ''GET'' ''/users'') = []"
proof -
  have 1: "dependencies users_with_db_route = [Depends 0 [] get_db]"
    by (simp add: users_with_db_route_def)
  have 2: "depends_call (Depends 0 [] get_db) (http_request ''GET'' ''/users'') Map.empty []
       = (Inr (VStr ''db''), [0 \<mapsto> VStr ''db''], [''get_db''])"
    by (simp add: get_db_def)
  have m: "match users_with_db_route ''/users'' = Some []"
    by (simp add: match_def users_with_db_route_def users_route_def)
  have 3: "handle_request (register [users_with_db_route]) (http_request ''GET'' ''/users'') []
       = (Inr (JSONResponse (VDict [(''users'', VList [])]) 200 []),
          (http_request ''GET'' ''/users'')\<lparr>path_params := Some []\<rparr>,
          [''list_users''])"
    using m
    by (simp add: handle_request_def select_route_def register_def add_route_def Router_init_def
        http_request_def normalize_path_def rstrip_def process_route_def handler_params_def
        users_with_db_route_def users_route_def list_users_def)
  have 4: "handler_params users_with_db_route [] (http_request ''GET'' ''/users'') = []"
    by (simp add: handler_params_def users_with_db_route_def users_route_def)
  from 1 2 3 4 show ?thesis by blast
qed

section \<open>Startup and shutdown\<close>

lemma startup_when_complete: "startup_complete app \<Longrightarrow> startup app s = (Inr (), app, s)"
  by (simp add: startup_def)

lemma shutdown_when_complete: "shutdown_complete app \<Longrightarrow> shutdown app s = (Inr (), app, s)"
  by (simp add: shutdown_def)

lemma startup_completes:
  assumes "startup app s = (Inr (), app', s')"
  shows "startup_complete app'"
proof (cases "startup_complete app")
  case True
  with assms show ?thesis by (simp add: startup_def)
next
  case False
  obtain r1 s1 where h: "run_startup_handlers (startup_handlers app) s = (r1, s1)"
    by (cases "run_startup_handlers (startup_handlers app) s")
  obtain r2 s2 where p: "(if plugins_enabled app
                 then (case plugin_manager app of
                         None \<Rightarrow> (Inl (none_attribute ''startup''), s1)
                       | Some ps \<Rightarrow> (Inr (), plugins_startup ps s1))
                 else (Inr (), s1)) = (r2, s2)"
    by (cases "(if plugins_enabled app
                 then (case plugin_manager app of
                         None \<Rightarrow> (Inl (none_attribute ''startup''), s1)
                       | Some ps \<Rightarrow> (Inr (), plugins_startup ps s1))
                 else (Inr (), s1))")
  show ?thesis
  proof (cases r1)
    case (Inl e)
    with assms False h show ?thesis by (simp add: startup_def)
  next
    case r1: (Inr u)
    show ?thesis
    proof (cases r2)
      case (Inl e)
      with assms False h r1 p show ?thesis by (simp add: startup_def)
    next
      case r2: (Inr u2)
      show ?thesis
      proof (cases "lifespan_manager app")
        case None
        with assms False h r1 p r2 have "app' = app\<lparr>startup_complete := True\<rparr>"
          by (simp add: startup_def)
        then show ?thesis by simp
      next
        case (Some m)
        obtain aenter aexit where m: "m = (aenter, aexit)" by (cases m)
        obtain r3 s3 where e: "aenter s2 = (r3, s3)" by (cases "aenter s2")
        show ?thesis
        proof (cases r3)
          case (Inl e3)
          with assms False h r1 p r2 Some m e show ?thesis by (simp add: startup_def)
        next
          case (Inr u3)
          with assms False h r1 p r2 Some m e have "app' = app\<lparr>startup_complete := True\<rparr>"
            by (simp add: startup_def)
          then show ?thesis by simp
        qed
      qed
    qed
  qed
qed

lemma shutdown_completes:
  assumes "shutdown app s = (Inr (), app', s')"
  shows "shutdown_complete app'"
proof (cases "shutdown_complete app")
  case True
  with assms show ?thesis by (simp add: shutdown_def)
next
  case False
  let ?s1 = "run_shutdown_handlers (shutdown_handlers app) s"
  obtain r2 s2 where p: "(if plugins_enabled app
               then (case plugin_manager app of
                       None \<Rightarrow> (Inl (none_attribute ''shutdown''), ?s1)
                     | Some ps \<Rightarrow> (Inr (), plugins_shutdown ps ?s1))
               else (Inr (), ?s1)) = (r2, s2)"
    by (cases "(if plugins_enabled app
               then (case plugin_manager app of
                       None \<Rightarrow> (Inl (none_attribute ''shutdown''), ?s1)
                     | Some ps \<Rightarrow> (Inr (), plugins_shutdown ps ?s1))
               else (Inr (), ?s1))")
  show ?thesis
  proof (cases r2)
    case (Inl e)
    with assms False p show ?thesis by (simp add: shutdown_def Let_def)
  next
    case r2: (Inr u2)
    show ?thesis
    proof (cases "lifespan_manager app")
      case None
      with assms False p r2 have "app' = app\<lparr>shutdown_complete := True\<rparr>"
        by (simp add: shutdown_def Let_def)
      then show ?thesis by simp
    next
      case (Some m)
      obtain aenter aexit where m: "m = (aenter, aexit)" by (cases m)
      obtain r3 s3 where e: "aexit s2 = (r3, s3)" by (cases "aexit s2")
      with assms False p r2 Some m have "app' = app\<lparr>shutdown_complete := True\<rparr>"
        by (simp add: shutdown_def Let_def)
      then show ?thesis by simp
    qed
  qed
qed

text \<open>
  Claim C9. Once \<open>startup()\<close> has completed, a second call returns at once: nothing
  runs, the application and the state of the world are as the first call left them,
  whatever the registered startup handlers do. The same holds for \<open>shutdown()\<close>.
\<close>

theorem startup_shutdown_idempotent:
  "(startup app s = (Inr (), app', s') \<longrightarrow> startup app' s' = (Inr (), app', s'))
   \<and> (shutdown app s = (Inr (), app', s') \<longrightarrow> shutdown app' s' = (Inr (), app', s'))"
  using startup_completes[of app s app' s'] shutdown_completes[of app s app' s']
  by (auto simp: startup_when_complete shutdown_when_complete)

theorem startup_shutdown_idempotent_witness:
  "startup lifecycle_app [] = (Inr (), lifecycle_app\<lparr>startup_complete := True\<rparr>, [''on_startup''])
   \<and> startup (lifecycle_app\<lparr>startup_complete := True\<rparr>) [''on_startup'']
       = (Inr (), lifecycle_app\<lparr>startup_complete := True\<rparr>, [''on_startup''])
   \<and> shutdown (lifecycle_app\<lparr>startup_complete := True\<rparr>) [''on_startup'']
       = (Inr (), lifecycle_app\<lparr>startup_complete := True, shutdown_complete := True\<rparr>,
          [''on_startup'', ''on_shutdown''])
   \<and> shutdown (lifecycle_app\<lparr>startup_complete := True, shutdown_complete := True\<rparr>)
         [''on_startup'', ''on_shutdown'']
       = (Inr (), lifecycle_app\<lparr>startup_complete := True, shutdown_complete := True\<rparr>,
          [''on_startup'', ''on_shutdown''])"
proof -
  let ?a1 = "lifecycle_app\<lparr>startup_complete := True\<rparr>"
  let ?a2 = "lifecycle_app\<lparr>startup_complete := True, shutdown_complete := True\<rparr>"
  have 1: "startup lifecycle_app [] = (Inr (), ?a1, [''on_startup''])"
    by (simp add: startup_def lifecycle_app_def Application_init_def log_call_def)
  have 3: "shutdown ?a1 [''on_startup''] = (Inr (), ?a2, [''on_startup'', ''on_shutdown''])"
    by (simp add: shutdown_def lifecycle_app_def Application_init_def log_call_def)
  from startup_shutdown_idempotent[of lifecycle_app "[]" ?a1 "[''on_startup'']", THEN conjunct1] 1
  have 2: "startup ?a1 [''on_startup''] = (Inr (), ?a1, [''on_startup''])" by blast
  from startup_shutdown_idempotent[of ?a1 "[''on_startup'']" ?a2 "[''on_startup'', ''on_shutdown'']",
      THEN conjunct2] 3
  have 4: "shutdown ?a2 [''on_startup'', ''on_shutdown''] = (Inr (), ?a2, [''on_startup'', ''on_shutdown''])"
    by blast
  from 1 2 3 4 show ?thesis by blast
qed

section \<open>Plugin hooks\<close>









section \<open>Middleware order\<close>

lemma append_marker_const:
  "append_marker name marker req (\<lambda>r s0. (Inr resp, s0)) s =
     (Inr (add_header name
             (case map_of (headers resp) (lower name) of
                None \<Rightarrow> marker
              | Some old \<Rightarrow> old @ '','' @ marker) resp), s)"
  by (simp add: append_marker_def)

lemma header_after_add_header:
  "map_of (headers (add_header name v resp)) (lower name) = Some v"
  by (simp add: add_header_def update_conv')

text \<open>
  Claim C6. With middleware \<open>A\<close> registered before \<open>B\<close>, the response of the router
  is handed to \<open>B\<close> first and the result of \<open>B\<close> to \<open>A\<close>; when both append a marker
  to a header that the router's response does not carry, the header of the final
  response is \<open>B\<close>'s marker, a comma, \<open>A\<close>'s marker.
\<close>

theorem middleware_reverse_registration_order:
  assumes rt: "router app0 = Some rt" and none: "middleware app0 = []"
    and res: "handle_request rt req s = (Inr resp, req', s')"
    and fresh: "map_of (headers resp) (lower name) = None"
  shows "Application_handle_request (add_middleware B (add_middleware A app0)) req s
           = (case B req' (\<lambda>r s0. (Inr resp, s0)) s' of
                (Inl e, s1) \<Rightarrow> (translate_exception (debug app0) e, req', s1)
              | (Inr resp1, s1) \<Rightarrow>
                  (case A req' (\<lambda>r s0. (Inr resp1, s0)) s1 of
                     (Inl e, s2) \<Rightarrow> (translate_exception (debug app0) e, req', s2)
                   | (Inr resp2, s2) \<Rightarrow> (Inr resp2, req', s2)))
       \<and> Application_handle_request
             (add_middleware (append_marker name b) (add_middleware (append_marker name a) app0)) req s
           = (Inr (add_header name (b @ '','' @ a) (add_header name b resp)), req', s')
       \<and> map_of (headers (add_header name (b @ '','' @ a) (add_header name b resp))) (lower name)
           = Some (b @ '','' @ a)"
proof -
  have general: "\<And>A B. Application_handle_request (add_middleware B (add_middleware A app0)) req s
           = (case B req' (\<lambda>r s0. (Inr resp, s0)) s' of
                (Inl e, s1) \<Rightarrow> (translate_exception (debug app0) e, req', s1)
              | (Inr resp1, s1) \<Rightarrow>
                  (case A req' (\<lambda>r s0. (Inr resp1, s0)) s1 of
                     (Inl e, s2) \<Rightarrow> (translate_exception (debug app0) e, req', s2)
                   | (Inr resp2, s2) \<Rightarrow> (Inr resp2, req', s2)))"
    using rt none res
    by (simp add: Application_handle_request_def add_middleware_def split: prod.splits sum.splits)
  have marked: "Application_handle_request
             (add_middleware (append_marker name b) (add_middleware (append_marker name a) app0)) req s
           = (Inr (add_header name (b @ '','' @ a) (add_header name b resp)), req', s')"
    using fresh by (simp add: general append_marker_const header_after_add_header)
  show ?thesis
    using general[of B A] marked header_after_add_header by blast
qed

theorem middleware_reverse_registration_order_witness:
  "fst (Application_handle_request marked_app (http_request ''GET'' ''/users'') [])
     = Inr (add_header ''X-Order'' ''B,A''
              (add_header ''X-Order'' ''B'' (JSONResponse (VDict [(''users'', VList [])]) 200 [])))
   \<and> map_of (headers (add_header ''X-Order'' ''B,A''
              (add_header ''X-Order'' ''B'' (JSONResponse (VDict [(''users'', VList [])]) 200 []))))
         ''x-order'' = Some ''B,A''"
proof -
  let ?req = "http_request ''GET'' ''/users''"
  let ?resp = "JSONResponse (VDict [(''users'', VList [])]) 200 []"
  have rt: "router users_app = Some (register [users_route])"
    and none: "middleware users_app = []"
    by (simp_all add: users_app_def Application_init_def)
  have m: "match users_route ''/users'' = Some []"
    by (simp add: match_def users_route_def)
  have res: "handle_request (register [users_route]) ?req []
      = (Inr ?resp, ?req\<lparr>path_params := Some []\<rparr>, [''list_users''])"
    using m
    by (simp add: handle_request_def select_route_def register_def add_route_def Router_init_def
        http_request_def normalize_path_def rstrip_def process_route_def handler_params_def
        users_route_def list_users_def)
  have fresh: "map_of (headers ?resp) (lower ''X-Order'') = None"
    by (simp add: JSONResponse_def Response_def lower_def lower_char_def)
  have low: "lower ''X-Order'' = ''x-order''"
    by (simp add: lower_def lower_char_def)
  note fact = middleware_reverse_registration_order[OF rt none res fresh,
      where a = "''A''" and b = "''B''"]
  from fact[THEN conjunct2, THEN conjunct1] fact[THEN conjunct2, THEN conjunct2] low
  show ?thesis by (simp add: marked_app_def)
qed

section \<open>The headers property\<close>

lemma mutate1_copy_above:
  assumes "copy_above h h1"
  shows "\<exists>h2. mutate1 (Suc (length h)) op h1 = Some h2 \<and> copy_above h h2"
proof -
  from assms obtain d own where
    len: "length h1 = Suc (Suc (length h))" and tk: "take (length h) h1 = h"
    and d: "h1 ! length h = PyDict d"
    and c: "h1 ! Suc (length h) = PyCaseInsensitiveDict own (length h)"
    by (auto simp: copy_above_def)
  show ?thesis
  proof (cases op)
    case (SetItem k v)
    have "mutate1 (Suc (length h)) op h1 = Some (h1[length h := PyDict (AList.update (lower k) v d)])"
      using len d c SetItem by (simp add: mutate1_def dict_setitem_def dict_at_def)
    moreover have "copy_above h (h1[length h := PyDict (AList.update (lower k) v d)])"
      using len tk c by (simp add: copy_above_def)
    ultimately show ?thesis by blast
  next
    case (Update kvs)
    let ?h2 = "h1[Suc (length h) :=
        PyCaseInsensitiveDict (fold (\<lambda>(k, v). AList.update k v) kvs own) (length h)]"
    have "mutate1 (Suc (length h)) op h1 = Some ?h2"
      using len c Update by (simp add: mutate1_def)
    moreover have "copy_above h ?h2"
      using len tk d by (simp add: copy_above_def)
    ultimately show ?thesis by blast
  qed
qed

lemma mutate_copy_above:
  "copy_above h h1 \<Longrightarrow> \<exists>h2. mutate (Suc (length h)) ops h1 = Some h2 \<and> copy_above h h2"
proof (induction ops arbitrary: h1)
  case Nil
  then show ?case by simp
next
  case (Cons op ops)
  from mutate1_copy_above[OF Cons.prems, of op]
  obtain h' where h': "mutate1 (Suc (length h)) op h1 = Some h'" "copy_above h h'" by blast
  from Cons.IH[OF h'(2)] h'(1) show ?case by simp
qed

lemma response_at_bounds:
  assumes "response_at h r = Some resp"
  shows "\<exists>d. r < length h \<and> d < length h
            \<and> h ! r = PyResponse (content resp) (status_code resp) d \<and> h ! d = PyDict (headers resp)"
  using assms
  by (auto simp: response_at_def dict_at_def split: if_splits pyobj.splits)

lemma response_at_copy_above:
  assumes "response_at h r = Some resp" and "copy_above h h'"
  shows "response_at h' r = Some resp"
proof -
  from response_at_bounds[OF assms(1)] obtain d where
    b: "r < length h" "d < length h" "h ! r = PyResponse (content resp) (status_code resp) d"
       "h ! d = PyDict (headers resp)" by blast
  from assms(2) have len: "length h' = Suc (Suc (length h))" and tk: "take (length h) h' = h"
    by (auto simp: copy_above_def)
  have nth: "\<And>i. i < length h \<Longrightarrow> h' ! i = h ! i"
  proof -
    fix i assume "i < length h"
    then have "take (length h) h' ! i = h' ! i" by simp
    with tk show "h' ! i = h ! i" by simp
  qed
  show ?thesis
    using b len nth[of r] nth[of d] by (simp add: response_at_def dict_at_def)
qed

lemma Response_headers_copy:
  assumes "response_at h r = Some resp"
  shows "\<exists>h1. Response_headers r h = Some (Suc (length h), h1) \<and> copy_above h h1"
proof -
  from response_at_bounds[OF assms] obtain d where
    b: "r < length h" "d < length h" "h ! r = PyResponse (content resp) (status_code resp) d"
       "h ! d = PyDict (headers resp)" by blast
  then show ?thesis
    by (simp add: Response_headers_def dict_at_def copy_above_def nth_append)
qed

lemma Response_add_header_at:
  assumes "response_at h r = Some resp"
  shows "\<exists>h'. Response_add_header r k v h = Some h' \<and> response_at h' r = Some (add_header k v resp)"
proof -
  from response_at_bounds[OF assms] obtain d where
    b: "r < length h" "d < length h" "h ! r = PyResponse (content resp) (status_code resp) d"
       "h ! d = PyDict (headers resp)" by blast
  then have ne: "r \<noteq> d" by auto
  let ?h' = "h[d := PyDict (AList.update (lower k) v (headers resp))]"
  have "Response_add_header r k v h = Some ?h'"
    using b by (simp add: Response_add_header_def dict_setitem_def dict_at_def)
  moreover have "response_at ?h' r = Some (add_header k v resp)"
    using b ne by (simp add: response_at_def dict_at_def add_header_def)
  ultimately show ?thesis by blast
qed

text \<open>
  Claim C10. The mapping returned by the \<open>headers\<close> property is a new object with a
  new \<open>_store\<close>: after any sequence of item assignments and updates through it, the
  response object is as before and \<open>__call__\<close> sends the same messages. \<open>add_header\<close>
  does change the headers that are sent.
\<close>

theorem headers_property_is_detached:
  assumes "response_at h r = Some resp"
  shows "\<exists>m h1. Response_headers r h = Some (m, h1)
           \<and> (\<forall>ops. \<exists>h2. mutate m ops h1 = Some h2
                 \<and> response_at h2 r = Some resp
                 \<and> Response_call r h2 = Response_call r h
                 \<and> Response_call r h2 = Some (send_response resp))
       \<and> (\<exists>h'. Response_add_header r k v h = Some h'
                 \<and> response_at h' r = Some (add_header k v resp)
                 \<and> Response_call r h' = Some (send_response (add_header k v resp)))"
proof -
  from Response_headers_copy[OF assms] obtain h1 where
    h1: "Response_headers r h = Some (Suc (length h), h1)" "copy_above h h1" by blast
  have "\<forall>ops. \<exists>h2. mutate (Suc (length h)) ops h1 = Some h2
                 \<and> response_at h2 r = Some resp
                 \<and> Response_call r h2 = Response_call r h
                 \<and> Response_call r h2 = Some (send_response resp)"
  proof
    fix ops
    from mutate_copy_above[OF h1(2), of ops] obtain h2 where
      h2: "mutate (Suc (length h)) ops h1 = Some h2" "copy_above h h2" by blast
    from response_at_copy_above[OF assms h2(2)] have "response_at h2 r = Some resp" .
    with h2(1) assms show "\<exists>h2. mutate (Suc (length h)) ops h1 = Some h2
                 \<and> response_at h2 r = Some resp
                 \<and> Response_call r h2 = Response_call r h
                 \<and> Response_call r h2 = Some (send_response resp)"
      by (simp add: Response_call_def)
  qed
  with h1(1) have first: "\<exists>m h1. Response_headers r h = Some (m, h1)
           \<and> (\<forall>ops. \<exists>h2. mutate m ops h1 = Some h2
                 \<and> response_at h2 r = Some resp
                 \<and> Response_call r h2 = Response_call r h
                 \<and> Response_call r h2 = Some (send_response resp))" by blast
  from Response_add_header_at[OF assms, of k v] obtain h' where
    "Response_add_header r k v h = Some h'" "response_at h' r = Some (add_header k v resp)" by blast
  then have "\<exists>h'. Response_add_header r k v h = Some h'
                 \<and> response_at h' r = Some (add_header k v resp)
                 \<and> Response_call r h' = Some (send_response (add_header k v resp))"
    by (simp add: Response_call_def)
  with first show ?thesis by blast
qed

theorem headers_property_is_detached_witness:
  "Response_headers 1 ok_heap
     = Some (3, [PyDict [(''content-type'', ''text/plain'')], PyResponse (VStr ''ok'') 200 0,
                 PyDict [(''content-type'', ''text/plain'')], PyCaseInsensitiveDict [] 2])
   \<and> mutate 3 [Update security_headers, SetItem ''X-Test'' ''1'']
         [PyDict [(''content-type'', ''text/plain'')], PyResponse (VStr ''ok'') 200 0,
          PyDict [(''content-type'', ''text/plain'')], PyCaseInsensitiveDict [] 2]
     = Some [PyDict [(''content-type'', ''text/plain'')], PyResponse (VStr ''ok'') 200 0,
             PyDict [(''content-type'', ''text/plain''), (''x-test'', ''1'')],
             PyCaseInsensitiveDict security_headers 2]
   \<and> Response_call 1
         [PyDict [(''content-type'', ''text/plain'')], PyResponse (VStr ''ok'') 200 0,
          PyDict [(''content-type'', ''text/plain''), (''x-test'', ''1'')],
          PyCaseInsensitiveDict security_headers 2]
     = Some [ResponseStart 200 [(''content-type'', ''text/plain'')], ResponseBody (VStr ''ok'')]
   \<and> CaseInsensitiveDict_get 3 ''X-Test''
         [PyDict [(''content-type'', ''text/plain'')], PyResponse (VStr ''ok'') 200 0,
          PyDict [(''content-type'', ''text/plain''), (''x-test'', ''1'')],
          PyCaseInsensitiveDict security_headers 2]
     = Some ''1''"
proof -
  let ?h1 = "[PyDict [(''content-type'', ''text/plain'')], PyResponse (VStr ''ok'') 200 0,
              PyDict [(''content-type'', ''text/plain'')], PyCaseInsensitiveDict [] 2]"
  let ?h2 = "[PyDict [(''content-type'', ''text/plain'')], PyResponse (VStr ''ok'') 200 0,
              PyDict [(''content-type'', ''text/plain''), (''x-test'', ''1'')],
              PyCaseInsensitiveDict security_headers 2]"
  let ?resp = "\<lparr>content = VStr ''ok'', status_code = 200, headers = [(''content-type'', ''text/plain'')]\<rparr>"
  have heap: "ok_heap = [PyDict [(''content-type'', ''text/plain'')], PyResponse (VStr ''ok'') 200 0]"
    by (simp add: ok_heap_def Response_new_def Response_def)
  have at: "response_at ok_heap 1 = Some ?resp"
    by (simp add: heap response_at_def dict_at_def)
  have copy: "Response_headers 1 ok_heap = Some (3, ?h1)"
    by (simp add: heap Response_headers_def dict_at_def lower_def lower_char_def numeral_3_eq_3)
  have mut: "mutate 3 [Update security_headers, SetItem ''X-Test'' ''1''] ?h1 = Some ?h2"
    by (simp add: mutate1_def dict_setitem_def dict_at_def lower_def lower_char_def
        security_headers_def numeral_3_eq_3 numeral_2_eq_2)
  from headers_property_is_detached[OF at, of "''k''" "''v''"] copy
  have "\<forall>ops. \<exists>h2. mutate 3 ops ?h1 = Some h2 \<and> Response_call 1 h2 = Some (send_response ?resp)"
    by auto
  then obtain h2 where "mutate 3 [Update security_headers, SetItem ''X-Test'' ''1''] ?h1 = Some h2"
    and "Response_call 1 h2 = Some (send_response ?resp)" by blast
  with mut have "Response_call 1 ?h2 = Some (send_response ?resp)" by simp
  moreover have "send_response ?resp
      = [ResponseStart 200 [(''content-type'', ''text/plain'')], ResponseBody (VStr ''ok'')]"
    by (simp add: send_response_def prepare_headers_def lower_def lower_char_def)
  moreover have "CaseInsensitiveDict_get 3 ''X-Test'' ?h2 = Some ''1''"
    by (simp add: CaseInsensitiveDict_get_def dict_at_def lower_def lower_char_def
        numeral_3_eq_3 numeral_2_eq_2)
  ultimately show ?thesis using copy mut by simp
qed

end
